theory Spec2Isabelle
  imports Complex_Main
begin

section \<open>JavaScript numbers and values\<close>

text \<open>
  A JavaScript Number is modelled as a real number or one of the three IEEE special
  values. Arithmetic on finite values is exact (no rounding, no overflow to infinity),
  and zero is unsigned: it behaves as \<open>+0\<close>. The divisors that can vanish in the
  modelled code are sums of non-negative terms, lengths and their differences, square
  roots, all of which are \<open>+0\<close> when they are zero, and prices, where a negative zero
  is not told apart from zero. Division by zero and every operation on the special values
  follow IEEE 754, so that \<open>NaN\<close> and the infinities arise where the code produces them.
\<close>

datatype jsnum = Fin real | PInf | NInf | NaN

fun js_neg :: "jsnum \<Rightarrow> jsnum" where
  "js_neg (Fin a) = Fin (- a)"
| "js_neg PInf = NInf"
| "js_neg NInf = PInf"
| "js_neg NaN = NaN"

fun js_add :: "jsnum \<Rightarrow> jsnum \<Rightarrow> jsnum" where
  "js_add (Fin a) (Fin b) = Fin (a + b)"
| "js_add NaN _ = NaN"
| "js_add _ NaN = NaN"
| "js_add PInf NInf = NaN"
| "js_add NInf PInf = NaN"
| "js_add PInf _ = PInf"
| "js_add _ PInf = PInf"
| "js_add NInf _ = NInf"
| "js_add _ NInf = NInf"

definition js_sub :: "jsnum \<Rightarrow> jsnum \<Rightarrow> jsnum" where
  "js_sub a b = js_add a (js_neg b)"

fun js_mul :: "jsnum \<Rightarrow> jsnum \<Rightarrow> jsnum" where
  "js_mul (Fin a) (Fin b) = Fin (a * b)"
| "js_mul NaN _ = NaN"
| "js_mul _ NaN = NaN"
| "js_mul PInf (Fin b) = (if b = 0 then NaN else if 0 < b then PInf else NInf)"
| "js_mul NInf (Fin b) = (if b = 0 then NaN else if 0 < b then NInf else PInf)"
| "js_mul (Fin a) PInf = (if a = 0 then NaN else if 0 < a then PInf else NInf)"
| "js_mul (Fin a) NInf = (if a = 0 then NaN else if 0 < a then NInf else PInf)"
| "js_mul PInf PInf = PInf"
| "js_mul NInf NInf = PInf"
| "js_mul PInf NInf = NInf"
| "js_mul NInf PInf = NInf"

fun js_div :: "jsnum \<Rightarrow> jsnum \<Rightarrow> jsnum" where
  "js_div (Fin a) (Fin b) =
     (if b \<noteq> 0 then Fin (a / b)
      else if 0 < a then PInf else if a < 0 then NInf else NaN)"
| "js_div NaN _ = NaN"
| "js_div _ NaN = NaN"
| "js_div (Fin a) PInf = Fin 0"
| "js_div (Fin a) NInf = Fin 0"
| "js_div PInf (Fin b) = (if 0 \<le> b then PInf else NInf)"
| "js_div NInf (Fin b) = (if 0 \<le> b then NInf else PInf)"
| "js_div PInf PInf = NaN"
| "js_div PInf NInf = NaN"
| "js_div NInf PInf = NaN"
| "js_div NInf NInf = NaN"

text \<open>\<open>Math.max(a, b)\<close>: \<open>NaN\<close> if either argument is \<open>NaN\<close>.\<close>

fun Math_max :: "jsnum \<Rightarrow> jsnum \<Rightarrow> jsnum" where
  "Math_max (Fin a) (Fin b) = Fin (max a b)"
| "Math_max NaN _ = NaN"
| "Math_max _ NaN = NaN"
| "Math_max PInf _ = PInf"
| "Math_max _ PInf = PInf"
| "Math_max NInf b = b"
| "Math_max a NInf = a"

text \<open>\<open>Math.sqrt(a)\<close>.\<close>

fun Math_sqrt :: "jsnum \<Rightarrow> jsnum" where
  "Math_sqrt (Fin a) = (if a < 0 then NaN else Fin (sqrt a))"
| "Math_sqrt PInf = PInf"
| "Math_sqrt NInf = NaN"
| "Math_sqrt NaN = NaN"

text \<open>\<open>Math.pow(a, 2)\<close>, the only exponent the code uses.\<close>

fun Math_pow2 :: "jsnum \<Rightarrow> jsnum" where
  "Math_pow2 (Fin a) = Fin (a ^ 2)"
| "Math_pow2 PInf = PInf"
| "Math_pow2 NInf = PInf"
| "Math_pow2 NaN = NaN"

text \<open>The relational operator \<open>a > b\<close>: false whenever an operand is \<open>NaN\<close>.\<close>

fun js_gt :: "jsnum \<Rightarrow> jsnum \<Rightarrow> bool" where
  "js_gt (Fin a) (Fin b) = (b < a)"
| "js_gt NaN _ = False"
| "js_gt _ NaN = False"
| "js_gt PInf PInf = False"
| "js_gt PInf _ = True"
| "js_gt _ PInf = False"
| "js_gt NInf _ = False"
| "js_gt _ NInf = True"

text \<open>Strict inequality \<open>a !== b\<close> on numbers: \<open>NaN\<close> is unequal to everything.\<close>

fun js_strict_neq :: "jsnum \<Rightarrow> jsnum \<Rightarrow> bool" where
  "js_strict_neq NaN _ = True"
| "js_strict_neq _ NaN = True"
| "js_strict_neq a b = (a \<noteq> b)"

text \<open>
  An array element of an indicator series is a number or \<open>null\<close>; a read past the end of
  an array gives \<open>undefined\<close>.
\<close>

datatype jsval = Undefined | Null | Num jsnum

text \<open>\<open>ToNumber\<close>, the coercion arithmetic applies to its operands.\<close>

fun ToNumber :: "jsval \<Rightarrow> jsnum" where
  "ToNumber Undefined = NaN"
| "ToNumber Null = Fin 0"
| "ToNumber (Num a) = a"

text \<open>\<open>!v\<close>: \<open>undefined\<close>, \<open>null\<close>, zero and \<open>NaN\<close> are falsy.\<close>

fun js_not :: "jsval \<Rightarrow> bool" where
  "js_not Undefined = True"
| "js_not Null = True"
| "js_not (Num (Fin a)) = (a = 0)"
| "js_not (Num NaN) = True"
| "js_not (Num _) = False"

text \<open>\<open>xs[i]\<close> on an array of values and on an array of numbers used as an operand.\<close>

definition js_get :: "jsval list \<Rightarrow> int \<Rightarrow> jsval" where
  "js_get xs i = (if 0 \<le> i \<and> i < int (length xs) then xs ! nat i else Undefined)"

definition nth_num :: "jsnum list \<Rightarrow> nat \<Rightarrow> jsnum" where
  "nth_num xs i = (if i < length xs then xs ! i else NaN)"

text \<open>
  The outcome of a call is a returned value or a thrown error. \<open>TypeError\<close> is what
  \<open>reduce\<close> throws on an empty array when no initial value is given. The other two
  constructors are the error kinds the specification names; no statement of the modelled
  code throws them.
\<close>

datatype js_error = TypeError | InsufficientDataError | DegenerateInputError

text \<open>\<open>xs.slice(a, b)\<close> for \<open>0 \<le> a\<close>; every call site passes a non-negative start.\<close>

definition slice :: "'a list \<Rightarrow> nat \<Rightarrow> nat \<Rightarrow> 'a list" where
  "slice xs a b = take (b - a) (drop a xs)"

text \<open>\<open>xs.reduce((a, b) => a + b, 0)\<close> and \<open>xs.reduce((a, b) => a + b)\<close>.\<close>

definition reduce_add0 :: "jsnum list \<Rightarrow> jsnum" where
  "reduce_add0 xs = foldl js_add (Fin 0) xs"

definition reduce_add :: "jsnum list \<Rightarrow> js_error + jsnum" where
  "reduce_add xs = (case xs of [] \<Rightarrow> Inl TypeError | x # ys \<Rightarrow> Inr (foldl js_add x ys))"

section \<open>Indicator engine (\<open>src/pages/api/stock.js\<close>)\<close>

text \<open>
  \<open>calculateSMA(prices, period)\<close>: the loop over \<open>i\<close> pushes one entry per price.
  The period is a lookback count, a natural number; the comparison \<open>i < period - 1\<close> is
  made over the integers, as in the source.
\<close>

definition calculateSMA :: "jsnum list \<Rightarrow> nat \<Rightarrow> jsval list" where
  "calculateSMA prices period =
     fold (\<lambda>i sma.
        if int i < int period - 1 then sma @ [Null]
        else let sum = reduce_add0 (slice prices (i + 1 - period) (i + 1))
             in sma @ [Num (js_div sum (Fin (real period)))])
       [0..<length prices] []"

text \<open>
  \<open>calculateRSI(prices, period = 14)\<close>. The loop state is the three arrays \<open>rsi\<close>,
  \<open>gains\<close> and \<open>losses\<close>; \<open>rsi_step\<close> is one iteration of the loop body at index \<open>i\<close>,
  and \<open>rsi_of\<close> its last two lines (\<open>rs\<close> and the pushed value).
  Both \<open>reduce\<close> calls have no initial value and throw on an empty slice.
\<close>

definition rsi_of :: "jsnum \<Rightarrow> jsnum \<Rightarrow> jsnum" where
  "rsi_of avgGain avgLoss =
     (let rs = js_div avgGain avgLoss
      in js_sub (Fin 100) (js_div (Fin 100) (js_add (Fin 1) rs)))"

definition rsi_step ::
  "jsnum list \<Rightarrow> nat \<Rightarrow> nat \<Rightarrow> jsval list \<times> jsnum list \<times> jsnum list
     \<Rightarrow> js_error + jsval list \<times> jsnum list \<times> jsnum list" where
  "rsi_step prices period i st =
     (case st of (rsi, gains, losses) \<Rightarrow>
        let difference = js_sub (nth_num prices i) (nth_num prices (i - 1));
            gains' = gains @ [Math_max difference (Fin 0)];
            losses' = losses @ [Math_max (js_neg difference) (Fin 0)]
        in if i < period then Inr (rsi @ [Null], gains', losses')
           else
             (case reduce_add (slice gains' (i - period) i) of
                Inl e \<Rightarrow> Inl e
              | Inr sumGain \<Rightarrow>
                 (case reduce_add (slice losses' (i - period) i) of
                    Inl e \<Rightarrow> Inl e
                  | Inr sumLoss \<Rightarrow>
                      let avgGain = js_div sumGain (Fin (real period));
                          avgLoss = js_div sumLoss (Fin (real period))
                      in Inr (rsi @ [Num (rsi_of avgGain avgLoss)], gains', losses'))))"

definition calculateRSI :: "jsnum list \<Rightarrow> nat \<Rightarrow> js_error + jsval list" where
  "calculateRSI prices period =
     (case fold (\<lambda>i st. case st of Inl e \<Rightarrow> Inl e | Inr s \<Rightarrow> rsi_step prices period i s)
             [1..<length prices] (Inr ([], [], []))
      of Inl e \<Rightarrow> Inl e
       | Inr (rsi, gains, losses) \<Rightarrow> Inr rsi)"

text \<open>
  \<open>calculateEMA(prices, period)\<close>; \<open>ema_step\<close> is one iteration of the loop body.
  \<open>ema[i - 1]\<close> is read from the array built so far and used as an operand.
\<close>

definition ema_step :: "jsnum list \<Rightarrow> nat \<Rightarrow> nat \<Rightarrow> jsval list \<Rightarrow> js_error + jsval list" where
  "ema_step prices period i ema =
     (let multiplier = js_div (Fin 2) (Fin (real period + 1))
      in if int i < int period - 1 then Inr (ema @ [Null])
         else if int i = int period - 1 then
           (case reduce_add (slice prices 0 period) of
              Inl e \<Rightarrow> Inl e
            | Inr s \<Rightarrow> Inr (ema @ [Num (js_div s (Fin (real period)))]))
         else
           (let prev = ToNumber (js_get ema (int i - 1))
            in Inr (ema @ [Num (js_add (js_mul (js_sub (nth_num prices i) prev) multiplier) prev)])))"

definition calculateEMA :: "jsnum list \<Rightarrow> nat \<Rightarrow> js_error + jsval list" where
  "calculateEMA prices period =
     fold (\<lambda>i st. case st of Inl e \<Rightarrow> Inl e | Inr ema \<Rightarrow> ema_step prices period i ema)
       [0..<length prices] (Inr [])"

text \<open>
  \<open>calculateMACD(prices, fastPeriod = 12, slowPeriod = 26, signalPeriod = 9)\<close>. The test
  \<open>!fast || !ema26[i]\<close> is JavaScript truthiness; the filter before the signal line is
  \<open>x !== null\<close>.
\<close>

record macd_result =
  macd :: "jsval list"
  signal :: "jsval list"

definition macd_entry :: "jsval list \<Rightarrow> jsval \<Rightarrow> nat \<Rightarrow> jsval" where
  "macd_entry ema26 fast i =
     (if js_not fast \<or> js_not (js_get ema26 (int i)) then Null
      else Num (js_sub (ToNumber fast) (ToNumber (js_get ema26 (int i)))))"

definition calculateMACD :: "jsnum list \<Rightarrow> nat \<Rightarrow> nat \<Rightarrow> nat \<Rightarrow> js_error + macd_result" where
  "calculateMACD prices fastPeriod slowPeriod signalPeriod =
     (case calculateEMA prices fastPeriod of
        Inl e \<Rightarrow> Inl e
      | Inr ema12 \<Rightarrow>
         (case calculateEMA prices slowPeriod of
            Inl e \<Rightarrow> Inl e
          | Inr ema26 \<Rightarrow>
              let macdLine = map (\<lambda>(fast, i). macd_entry ema26 fast i) (zip ema12 [0..<length ema12])
              in (case calculateEMA (map ToNumber (filter (\<lambda>x. x \<noteq> Null) macdLine)) signalPeriod of
                    Inl e \<Rightarrow> Inl e
                  | Inr signalLine \<Rightarrow> Inr \<lparr>macd = macdLine, signal = signalLine\<rparr>)))"

text \<open>\<open>calculateDailyReturns(prices)\<close>: no statement of it throws.\<close>

definition calculateDailyReturns :: "jsnum list \<Rightarrow> js_error + jsnum list" where
  "calculateDailyReturns prices =
     Inr (map (\<lambda>(price, index).
            if index = 0 then Fin 0
            else js_div (js_sub price (nth_num prices (index - 1))) (nth_num prices (index - 1)))
          (zip prices [0..<length prices]))"

section \<open>Portfolio analytics (the \<open>StockAnalysisApp\<close> component)\<close>

text \<open>
  Of a stock only the daily return series enters the computations below. The fields of
  the three result objects are prefixed (\<open>m_\<close>, \<open>fp_\<close>, \<open>mc_\<close>) because the source uses
  the names \<open>return\<close>, \<open>volatility\<close> and \<open>sharpeRatio\<close> in more than one of them.
\<close>

record stock =
  symbol :: string
  dailyReturns :: "jsnum list"

record metrics =
  m_return :: jsnum
  m_volatility :: jsnum
  m_sharpeRatio :: jsnum

record frontierPoint =
  fp_risk :: jsnum
  fp_return :: jsnum
  fp_sharpeRatio :: jsnum
  fp_weights :: "jsnum list"

record mcSample =
  mc_return :: jsnum
  mc_volatility :: jsnum

text \<open>\<open>calculatePortfolioMetrics(weights, returns)\<close>.\<close>

definition portfolioReturns :: "jsnum list \<Rightarrow> jsnum list list \<Rightarrow> jsnum list" where
  "portfolioReturns weights returns =
     map (\<lambda>dayReturns.
            foldl (\<lambda>sum (ret, i). js_add sum (js_mul ret (nth_num weights i)))
              (Fin 0) (zip dayReturns [0..<length dayReturns]))
         returns"

definition calculatePortfolioMetrics :: "jsnum list \<Rightarrow> jsnum list list \<Rightarrow> metrics" where
  "calculatePortfolioMetrics weights returns =
     (let pr = portfolioReturns weights returns;
          meanReturn = js_div (foldl (\<lambda>sum ret. js_add sum ret) (Fin 0) pr) (Fin (real (length pr)));
          variance = js_div (foldl (\<lambda>sum ret. js_add sum (Math_pow2 (js_sub ret meanReturn))) (Fin 0) pr)
                            (Fin (real (length pr)));
          volatility = Math_sqrt (js_mul variance (Fin 252));
          annualizedReturn = js_mul meanReturn (Fin 252)
      in \<lparr>m_return = annualizedReturn,
          m_volatility = volatility,
          m_sharpeRatio = (if js_strict_neq volatility (Fin 0)
                           then js_div annualizedReturn volatility else Fin 0)\<rparr>)"

text \<open>
  \<open>calculateCovarianceMatrix(returnsData)\<close>. The three loop nests update
  \<open>meanReturns\<close> and \<open>covarianceMatrix\<close> in place; no statement throws.
\<close>

definition meanReturns_of :: "jsnum list list \<Rightarrow> nat \<Rightarrow> nat \<Rightarrow> jsnum list" where
  "meanReturns_of returnsData numStocks numDays =
     (let totals = fold (\<lambda>i m. fold (\<lambda>j m. m[j := js_add (m ! j) (nth_num (returnsData ! i) j)])
                                [0..<numStocks] m)
                   [0..<numDays] (replicate numStocks (Fin 0))
      in fold (\<lambda>j m. m[j := js_div (m ! j) (Fin (real numDays))]) [0..<numStocks] totals)"

definition sumProduct_of :: "jsnum list list \<Rightarrow> jsnum list \<Rightarrow> nat \<Rightarrow> nat \<Rightarrow> nat \<Rightarrow> jsnum" where
  "sumProduct_of returnsData meanReturns numDays i j =
     fold (\<lambda>k sumProduct.
             js_add sumProduct
               (js_mul (js_sub (nth_num (returnsData ! k) i) (nth_num meanReturns i))
                       (js_sub (nth_num (returnsData ! k) j) (nth_num meanReturns j))))
       [0..<numDays] (Fin 0)"

definition calculateCovarianceMatrix :: "jsnum list list \<Rightarrow> js_error + jsnum list list" where
  "calculateCovarianceMatrix returnsData =
     (case returnsData of
        [] \<Rightarrow> Inr []
      | row0 # _ \<Rightarrow>
          if length row0 = 0 then Inr []
          else
            let numStocks = length row0;
                numDays = length returnsData;
                meanReturns = meanReturns_of returnsData numStocks numDays
            in Inr (fold (\<lambda>i cm. fold (\<lambda>j cm.
                        cm[i := (cm ! i)[j := js_div (sumProduct_of returnsData meanReturns numDays i j)
                                                     (Fin (real numDays - 1))]])
                      [0..<numStocks] cm)
                    [0..<numStocks] (replicate numStocks (replicate numStocks (Fin 0)))))"

text \<open>
  Random weights, the three lines shared by the frontier sampler and the Monte Carlo
  simulator: \<open>k\<close> results of \<open>Math.random()\<close> divided by their sum. The calls of
  \<open>Math.random()\<close> are the successive elements of a stream \<open>rnd\<close>, read from position
  \<open>pos\<close>; each lies in \<open>[0, 1)\<close>.
\<close>

definition draws :: "(nat \<Rightarrow> real) \<Rightarrow> nat \<Rightarrow> nat \<Rightarrow> jsnum list" where
  "draws rnd pos k = map (\<lambda>j. Fin (rnd (pos + j))) [0..<k]"

definition normalize :: "jsnum list \<Rightarrow> jsnum list" where
  "normalize ws = (let sum = reduce_add0 ws in map (\<lambda>w. js_div w sum) ws)"

text \<open>
  \<open>frontierPoints.sort((a, b) => a.risk - b.risk)\<close>. The sort is stable; a point is
  placed before the first point whose risk exceeds its own (comparator result \<open>> 0\<close>).
  Where the comparator is inconsistent (a risk of \<open>NaN\<close>) JavaScript leaves the order
  to the engine; the order this insertion yields then need not be the engine's, and
  nothing proved below depends on it, only on which points the result holds.
\<close>

fun insert_by_risk :: "frontierPoint \<Rightarrow> frontierPoint list \<Rightarrow> frontierPoint list" where
  "insert_by_risk p [] = [p]"
| "insert_by_risk p (q # qs) =
     (if js_gt (js_sub (fp_risk q) (fp_risk p)) (Fin 0) then p # q # qs
      else q # insert_by_risk p qs)"

definition sort_by_risk :: "frontierPoint list \<Rightarrow> frontierPoint list" where
  "sort_by_risk ps = foldl (\<lambda>acc p. insert_by_risk p acc) [] ps"

text \<open>\<open>generateEfficientFrontier()\<close>, with \<open>selectedStocks\<close> and the random stream as arguments.\<close>

definition frontier_returns :: "stock list \<Rightarrow> jsnum list list" where
  "frontier_returns selectedStocks =
     fold (\<lambda>i returns. returns @ [map (\<lambda>stock. nth_num (dailyReturns stock) i) selectedStocks])
       [0..<252] []"

definition frontier_point :: "stock list \<Rightarrow> (nat \<Rightarrow> real) \<Rightarrow> nat \<Rightarrow> frontierPoint" where
  "frontier_point selectedStocks rnd i =
     (let k = length selectedStocks;
          weights = normalize (draws rnd (i * k) k);
          metrics = calculatePortfolioMetrics weights (frontier_returns selectedStocks)
      in \<lparr>fp_risk = m_volatility metrics,
          fp_return = m_return metrics,
          fp_sharpeRatio = m_sharpeRatio metrics,
          fp_weights = weights\<rparr>)"

definition generateEfficientFrontier :: "stock list \<Rightarrow> (nat \<Rightarrow> real) \<Rightarrow> frontierPoint list" where
  "generateEfficientFrontier selectedStocks rnd =
     (if length selectedStocks = 0 then []
      else
        let numPoints = 50;
            frontierPoints = fold (\<lambda>i pts. pts @ [frontier_point selectedStocks rnd i]) [0..<numPoints] []
        in sort_by_risk frontierPoints)"

text \<open>\<open>findMaxSharpeRatio(frontierPoints)\<close>; \<open>None\<close> is \<open>null\<close>.\<close>

definition findMaxSharpeRatio :: "frontierPoint list \<Rightarrow> frontierPoint option" where
  "findMaxSharpeRatio frontierPoints =
     (case frontierPoints of
        [] \<Rightarrow> None
      | p0 # _ \<Rightarrow>
          Some (foldl (\<lambda>max point. if js_gt (fp_sharpeRatio point) (fp_sharpeRatio max) then point else max)
                  p0 frontierPoints))"

text \<open>
  \<open>runMonteCarloSimulation(numSimulations = 10000)\<close>. \<open>mc_trial\<close> is the body of the
  simulation loop after the weights are drawn. \<open>covMatrix[r][c]\<close> throws when row \<open>r\<close>
  is missing (the covariance matrix of an empty history is \<open>[]\<close>).
\<close>

definition cov_entry :: "jsnum list list \<Rightarrow> nat \<Rightarrow> nat \<Rightarrow> js_error + jsnum" where
  "cov_entry covMatrix r c =
     (if r < length covMatrix then Inr (nth_num (covMatrix ! r) c) else Inl TypeError)"

definition mc_variance :: "jsnum list \<Rightarrow> jsnum list list \<Rightarrow> nat \<Rightarrow> js_error + jsnum" where
  "mc_variance weights covMatrix k =
     fold (\<lambda>r st. fold (\<lambda>c st.
             case st of
               Inl e \<Rightarrow> Inl e
             | Inr portfolioVariance \<Rightarrow>
                 (case cov_entry covMatrix r c of
                    Inl e \<Rightarrow> Inl e
                  | Inr cv \<Rightarrow>
                      Inr (js_add portfolioVariance
                             (js_mul (js_mul (nth_num weights r) (nth_num weights c)) cv))))
           [0..<k] st)
       [0..<k] (Inr (Fin 0))"

definition mc_trial :: "jsnum list \<Rightarrow> jsnum list list \<Rightarrow> jsnum list \<Rightarrow> nat \<Rightarrow> js_error + mcSample" where
  "mc_trial weights covMatrix meanDailyReturns k =
     (let portfolioExpectedAnnualReturn =
            fold (\<lambda>j acc. js_add acc (js_mul (js_mul (nth_num weights j) (nth_num meanDailyReturns j)) (Fin 252)))
              [0..<k] (Fin 0)
      in case mc_variance weights covMatrix k of
           Inl e \<Rightarrow> Inl e
         | Inr portfolioVariance \<Rightarrow>
             Inr \<lparr>mc_return = portfolioExpectedAnnualReturn,
                  mc_volatility = Math_sqrt (js_mul portfolioVariance (Fin 252))\<rparr>)"

definition transposedReturns :: "stock list \<Rightarrow> jsnum list list" where
  "transposedReturns selectedStocks =
     (let stockDailyReturns = map dailyReturns selectedStocks
      in map (\<lambda>(u, colIndex). map (\<lambda>row. nth_num row colIndex) stockDailyReturns)
           (zip (hd stockDailyReturns) [0..<length (hd stockDailyReturns)]))"

definition meanDailyReturns :: "stock list \<Rightarrow> jsnum list" where
  "meanDailyReturns selectedStocks =
     map (\<lambda>stock. js_div (foldl (\<lambda>sum ret. js_add sum ret) (Fin 0) (dailyReturns stock))
                         (Fin (real (length (dailyReturns stock)))))
       selectedStocks"

definition runMonteCarloSimulation ::
  "stock list \<Rightarrow> nat \<Rightarrow> (nat \<Rightarrow> real) \<Rightarrow> js_error + mcSample list option" where
  "runMonteCarloSimulation selectedStocks numSimulations rnd =
     (if length selectedStocks = 0 then Inr None
      else
        (case calculateCovarianceMatrix (transposedReturns selectedStocks) of
           Inl e \<Rightarrow> Inl e
         | Inr covMatrix \<Rightarrow>
             let k = length selectedStocks;
                 means = meanDailyReturns selectedStocks
             in (case fold (\<lambda>i st. case st of
                              Inl e \<Rightarrow> Inl e
                            | Inr results \<Rightarrow>
                                (case mc_trial (normalize (draws rnd (i * k) k)) covMatrix means k of
                                   Inl e \<Rightarrow> Inl e
                                 | Inr sample \<Rightarrow> Inr (results @ [sample])))
                       [0..<numSimulations] (Inr [])
                 of Inl e \<Rightarrow> Inl e
                  | Inr results \<Rightarrow> Inr (Some results))))"

text \<open>
  The round trip the specification describes for daily returns: rebuild the prices from
  the first price and the returns, \<open>p[0] = S[0]\<close> and \<open>p[i] = p[i-1] * (1 + returns[i])\<close>.
  This function follows the specification's words; the source has no counterpart.
\<close>

fun reconstruct_from :: "jsnum \<Rightarrow> jsnum list \<Rightarrow> jsnum list" where
  "reconstruct_from p [] = []"
| "reconstruct_from p (r # rs) =
     (let p' = js_mul p (js_add (Fin 1) r) in p' # reconstruct_from p' rs)"

definition reconstruct_prices :: "jsnum \<Rightarrow> jsnum list \<Rightarrow> jsnum list" where
  "reconstruct_prices s0 returns = (case returns of [] \<Rightarrow> [] | r0 # rs \<Rightarrow> s0 # reconstruct_from s0 rs)"

section \<open>Loops that push and sums of finite numbers\<close>

lemma fold_push: "fold (\<lambda>i acc. acc @ [f i]) xs acc = acc @ map f xs"
  by (induction xs arbitrary: acc) auto

lemma foldl_js_add_Fin: "foldl js_add (Fin a) (map Fin xs) = Fin (a + sum_list xs)"
  by (induction xs arbitrary: a) (auto simp: add.assoc)

lemma reduce_add0_Fin: "reduce_add0 (map Fin xs) = Fin (sum_list xs)"
  by (simp add: reduce_add0_def foldl_js_add_Fin)

lemma slice_map: "slice (map f xs) a b = map f (slice xs a b)"
  by (simp add: slice_def take_map drop_map)

lemma slice_nth: 
  assumes "a \<le> b" "b \<le> length xs"
  shows "slice xs a b = map (\<lambda>k. xs ! k) [a..<b]"
  using assms by (auto simp: slice_def list_eq_iff_nth_eq)

lemma sum_list_slice:
  assumes "a \<le> b" "b \<le> length xs"
  shows "sum_list (slice xs a b) = (\<Sum>k = a..<b. (xs ! k :: real))"
proof -
  have "sum_list (slice xs a b) = sum_list (map (\<lambda>k. xs ! k) [a..<b])"
    using assms by (simp add: slice_nth)
  also have "\<dots> = (\<Sum>k = a..<b. xs ! k)"
    by (simp only: interv_sum_list_conv_sum_set_nat set_upt)
  finally show ?thesis .
qed

section \<open>Simple moving average\<close>

lemma calculateSMA_map:
  "calculateSMA prices period =
     map (\<lambda>i. if int i < int period - 1 then Null
        else Num (js_div (reduce_add0 (slice prices (i + 1 - period) (i + 1))) (Fin (real period))))
       [0..<length prices]"
proof -
  have "calculateSMA prices period =
    fold (\<lambda>i acc. acc @ [if int i < int period - 1 then Null
        else Num (js_div (reduce_add0 (slice prices (i + 1 - period) (i + 1))) (Fin (real period)))])
      [0..<length prices] []"
    unfolding calculateSMA_def
    by (rule arg_cong [where f = "\<lambda>f. fold f _ _"]) (auto simp: Let_def fun_eq_iff)
  then show ?thesis by (simp add: fold_push)
qed

text \<open>
  Claim C1. For every period \<open>P \<ge> 1\<close> and every series \<open>S\<close> of finite prices,
  \<open>calculateSMA(S, P)\<close> has the length of \<open>S\<close>; its entry at an index \<open>i < P - 1\<close> is
  \<open>null\<close>, and its entry at an index \<open>i \<ge> P - 1\<close> is the arithmetic mean of
  \<open>S[i-P+1..i]\<close>. (With \<open>len(S) \<ge> P\<close> the first \<open>P - 1\<close> entries are the \<open>null\<close> ones.)
\<close>

theorem calculateSMA_spec:
  assumes "1 \<le> P"
  shows "length (calculateSMA (map Fin S) P) = length S \<and>
    (\<forall>i < length S. calculateSMA (map Fin S) P ! i =
       (if i < P - 1 then Null else Num (Fin ((\<Sum>k = i + 1 - P..i. S ! k) / real P))))"
proof (intro conjI allI impI)
  show "length (calculateSMA (map Fin S) P) = length S"
    by (simp add: calculateSMA_map)
next
  fix i assume i: "i < length S"
  show "calculateSMA (map Fin S) P ! i =
       (if i < P - 1 then Null else Num (Fin ((\<Sum>k = i + 1 - P..i. S ! k) / real P)))"
  proof (cases "i < P - 1")
    case True
    then have "int i < int P - 1" by linarith
    with i True show ?thesis by (simp add: calculateSMA_map)
  next
    case False
    then have n: "\<not> int i < int P - 1" by linarith
    have "sum_list (slice S (i + 1 - P) (i + 1)) = (\<Sum>k = i + 1 - P..<i + 1. S ! k)"
      using i by (intro sum_list_slice) auto
    also have "{i + 1 - P..<i + 1} = {i + 1 - P..i}" by auto
    finally show ?thesis using i False n assms
      by (simp add: calculateSMA_map slice_map reduce_add0_Fin)
  qed
qed

theorem calculateSMA_spec_witness:
  "(1::nat) \<le> 5 \<and>
   length (calculateSMA (map Fin [100,102,101,105,110,108,107,112,115,113]) 5) = 10 \<and>
   calculateSMA (map Fin [100,102,101,105,110,108,107,112,115,113]) 5 ! 3 = Null \<and>
   calculateSMA (map Fin [100,102,101,105,110,108,107,112,115,113]) 5 ! 4 = Num (Fin 103.6)"
proof -
  let ?S = "[100,102,101,105,110,108,107,112,115,113] :: real list"
  have h: "(1::nat) \<le> 5" by simp
  note t = calculateSMA_spec [OF h, of ?S]
  have s: "(\<Sum>k = 0..4. ?S ! k) = 518"
    by (simp add: numeral_eq_Suc sum.atLeast_Suc_atMost)
  from t have a: "length (calculateSMA (map Fin ?S) 5) = 10" by simp
  from conjunct2 [OF t, rule_format, of 3] have b: "calculateSMA (map Fin ?S) 5 ! 3 = Null" by simp
  from conjunct2 [OF t, rule_format, of 4] s
  have c: "calculateSMA (map Fin ?S) 5 ! 4 = Num (Fin 103.6)" by simp
  from h a b c show ?thesis by blast
qed

section \<open>Covariance estimator\<close>

lemma fold_update_range:
  "n \<le> length m \<Longrightarrow>
   fold (\<lambda>j m. m[j := f j (m ! j)]) [0..<n] m = map (\<lambda>j. f j (m ! j)) [0..<n] @ drop n m"
proof (induction n)
  case 0
  then show ?case by simp
next
  case (Suc n)
  then have n: "n < length m" by simp
  have "fold (\<lambda>j m. m[j := f j (m ! j)]) [0..<Suc n] m =
        (map (\<lambda>j. f j (m ! j)) [0..<n] @ drop n m)[n := f n ((map (\<lambda>j. f j (m ! j)) [0..<n] @ drop n m) ! n)]"
    using Suc by simp
  also have "\<dots> = map (\<lambda>j. f j (m ! j)) [0..<n] @ (drop n m)[0 := f n (m ! n)]"
    using n by (simp add: list_update_append nth_append)
  also have "(drop n m)[0 := f n (m ! n)] = f n (m ! n) # drop (Suc n) m"
    using n by (simp add: Cons_nth_drop_Suc [symmetric])
  finally show ?case by simp
qed

lemma fold_update_all:
  "length m = n \<Longrightarrow> fold (\<lambda>j m. m[j := f j (m ! j)]) [0..<n] m = map (\<lambda>j. f j (m ! j)) [0..<n]"
  by (simp add: fold_update_range)

lemma fold_update_row:
  "i < length cm \<Longrightarrow> fold (\<lambda>j cm. cm[i := upd j (cm ! i)]) js cm = cm[i := fold upd js (cm ! i)]"
  by (induction js arbitrary: cm) auto

lemma fold_cong_set: "(\<And>x a. x \<in> set xs \<Longrightarrow> f x a = g x a) \<Longrightarrow> fold f xs a = fold g xs a"
  by (induction xs arbitrary: a) auto

lemma cov_loops:
  "fold (\<lambda>i cm. fold (\<lambda>j cm. cm[i := (cm ! i)[j := g i j]]) [0..<n] cm)
      [0..<n] (replicate n (replicate n z)) = map (\<lambda>i. map (g i) [0..<n]) [0..<n]"
proof -
  have inner: "fold (\<lambda>j cm. cm[i := (cm ! i)[j := g i j]]) [0..<n] cm
           = cm[i := map (g i) [0..<n] @ drop n (cm ! i)]" if "i < length cm" "n \<le> length (cm ! i)" for i cm
  proof -
    have "fold (\<lambda>j cm. cm[i := (cm ! i)[j := g i j]]) [0..<n] cm = cm[i := fold (\<lambda>j r. r[j := g i j]) [0..<n] (cm ! i)]"
      using that(1) by (rule fold_update_row [where upd = "\<lambda>j r. r[j := g i j]"])
    also have "fold (\<lambda>j r. r[j := g i j]) [0..<n] (cm ! i) = map (g i) [0..<n] @ drop n (cm ! i)"
      using fold_update_range [OF that(2), where f = "\<lambda>j _. g i j"] by simp
    finally show ?thesis .
  qed
  have gen: "m \<le> n \<Longrightarrow> fold (\<lambda>i cm. fold (\<lambda>j cm. cm[i := (cm ! i)[j := g i j]]) [0..<n] cm)
      [0..<m] (replicate n (replicate n z)) = map (\<lambda>i. map (g i) [0..<n]) [0..<m] @ replicate (n - m) (replicate n z)" for m
  proof (induction m)
    case 0
    then show ?case by simp
  next
    case (Suc m)
    let ?cm = "map (\<lambda>i. map (g i) [0..<n]) [0..<m] @ replicate (n - m) (replicate n z)"
    have l: "m < length ?cm" using Suc.prems by simp
    have r: "?cm ! m = replicate n z" using Suc.prems by (simp add: nth_append)
    have "fold (\<lambda>i cm. fold (\<lambda>j cm. cm[i := (cm ! i)[j := g i j]]) [0..<n] cm)
      [0..<Suc m] (replicate n (replicate n z)) = fold (\<lambda>j cm. cm[m := (cm ! m)[j := g m j]]) [0..<n] ?cm"
      using Suc by simp
    also have "\<dots> = ?cm[m := map (g m) [0..<n] @ drop n (?cm ! m)]"
      using l r by (intro inner) simp_all
    also have "\<dots> = map (\<lambda>i. map (g i) [0..<n]) [0..<m] @ (replicate (n - m) (replicate n z))[0 := map (g m) [0..<n]]"
      using r by (simp add: list_update_append)
    also have "(replicate (n - m) (replicate n z))[0 := map (g m) [0..<n]] = map (g m) [0..<n] # replicate (n - Suc m) (replicate n z)"
      using Suc.prems by (cases "n - m") (simp_all add: Suc_diff_Suc)
    finally show ?case by simp
  qed
  from gen [of n] show ?thesis by simp
qed

lemma calculateCovarianceMatrix_map:
  assumes "returnsData = row0 # rest" "length row0 \<noteq> 0"
  shows "calculateCovarianceMatrix returnsData =
    Inr (map (\<lambda>i. map (\<lambda>j. js_div (sumProduct_of returnsData
             (meanReturns_of returnsData (length row0) (length returnsData)) (length returnsData) i j)
             (Fin (real (length returnsData) - 1))) [0..<length row0]) [0..<length row0])"
  using assms by (simp add: calculateCovarianceMatrix_def Let_def cov_loops)

lemma nth_num_Fin: "j < length xs \<Longrightarrow> nth_num (map Fin xs) j = Fin (xs ! j)"
  by (simp add: nth_num_def)

lemma nth_num_matrix:
  assumes "k < length M" "j < length (M ! k)"
  shows "nth_num (map (map Fin) M ! k) j = Fin (M ! k ! j)"
  using assms by (simp add: nth_num_def)

lemma fold_js_add_Fin:
  "fold (\<lambda>k s. js_add s (Fin (f k))) [0..<n] (Fin a) = Fin (a + (\<Sum>k<n. f k))"
  by (induction n) (simp_all add: add.assoc)

lemma mean_sums_Fin:
  assumes rows: "\<forall>row \<in> set M. length row = K" and n: "n \<le> length M"
  shows "fold (\<lambda>i m. fold (\<lambda>j m. m[j := js_add (m ! j) (nth_num (map (map Fin) M ! i) j)]) [0..<K] m)
           [0..<n] (replicate K (Fin 0)) = map (\<lambda>j. Fin (\<Sum>k<n. M ! k ! j)) [0..<K]"
  using n
proof (induction n)
  case 0
  then show ?case by (simp add: list_eq_iff_nth_eq)
next
  case (Suc n)
  let ?m = "map (\<lambda>j. Fin (\<Sum>k<n. M ! k ! j)) [0..<K]"
  have len: "length (M ! n) = K" using rows Suc.prems by simp
  have "fold (\<lambda>i m. fold (\<lambda>j m. m[j := js_add (m ! j) (nth_num (map (map Fin) M ! i) j)]) [0..<K] m)
           [0..<Suc n] (replicate K (Fin 0))
        = fold (\<lambda>j m. m[j := js_add (m ! j) (nth_num (map (map Fin) M ! n) j)]) [0..<K] ?m"
    using Suc by simp
  also have "\<dots> = map (\<lambda>j. js_add (?m ! j) (nth_num (map (map Fin) M ! n) j)) [0..<K]"
    by (rule fold_update_all) simp
  also have "\<dots> = map (\<lambda>j. Fin (\<Sum>k<Suc n. M ! k ! j)) [0..<K]"
    using Suc.prems len by (intro map_cong refl) (simp add: nth_num_Fin)
  finally show ?case .
qed

lemma meanReturns_of_Fin:
  assumes rows: "\<forall>row \<in> set M. length row = K" and n: "M \<noteq> []"
  shows "meanReturns_of (map (map Fin) M) K (length M)
           = map (\<lambda>j. Fin ((\<Sum>k<length M. M ! k ! j) / real (length M))) [0..<K]"
proof -
  let ?s = "map (\<lambda>j. Fin (\<Sum>k<length M. M ! k ! j)) [0..<K]"
  have "meanReturns_of (map (map Fin) M) K (length M)
          = fold (\<lambda>j m. m[j := js_div (m ! j) (Fin (real (length M)))]) [0..<K] ?s"
    using mean_sums_Fin [OF rows, of "length M"] by (simp add: meanReturns_of_def Let_def)
  also have "\<dots> = map (\<lambda>j. js_div (?s ! j) (Fin (real (length M)))) [0..<K]"
    by (rule fold_update_all) simp
  also have "\<dots> = map (\<lambda>j. Fin ((\<Sum>k<length M. M ! k ! j) / real (length M))) [0..<K]"
    using n by (intro map_cong refl) simp
  finally show ?thesis .
qed

lemma sumProduct_of_Fin:
  assumes rows: "\<forall>row \<in> set M. length row = K" and i: "i < K" and j: "j < K"
  shows "sumProduct_of (map (map Fin) M) (map (\<lambda>j. Fin (mu j)) [0..<K]) (length M) i j
           = Fin (\<Sum>k<length M. (M ! k ! i - mu i) * (M ! k ! j - mu j))"
proof -
  have "sumProduct_of (map (map Fin) M) (map (\<lambda>j. Fin (mu j)) [0..<K]) (length M) i j
      = fold (\<lambda>k s. js_add s (Fin ((M ! k ! i - mu i) * (M ! k ! j - mu j)))) [0..<length M] (Fin 0)"
    unfolding sumProduct_of_def
  proof (rule fold_cong_set)
    fix k a assume "k \<in> set [0..<length M]"
    then have k: "k < length M" by simp
    then have "length (M ! k) = K" using rows by simp
    then show "js_add a (js_mul (js_sub (nth_num (map (map Fin) M ! k) i) (nth_num (map (\<lambda>j. Fin (mu j)) [0..<K]) i))
                 (js_sub (nth_num (map (map Fin) M ! k) j) (nth_num (map (\<lambda>j. Fin (mu j)) [0..<K]) j)))
             = js_add a (Fin ((M ! k ! i - mu i) * (M ! k ! j - mu j)))"
      using k i j by (simp add: nth_num_def js_sub_def)
  qed
  then show ?thesis by (simp add: fold_js_add_Fin)
qed

lemma calculateCovarianceMatrix_Fin:
  assumes rows: "\<forall>row \<in> set M. length row = K" and n: "M \<noteq> []" and K: "0 < K"
  shows "calculateCovarianceMatrix (map (map Fin) M) =
    Inr (map (\<lambda>i. map (\<lambda>j. js_div
           (Fin (\<Sum>k<length M. (M ! k ! i - (\<Sum>d<length M. M ! d ! i) / real (length M))
                               * (M ! k ! j - (\<Sum>d<length M. M ! d ! j) / real (length M))))
           (Fin (real (length M) - 1))) [0..<K]) [0..<K])"
proof -
  obtain row0 rest where M: "M = row0 # rest" using n by (cases M) auto
  then have l0: "length row0 = K" using rows by simp
  have R: "map (map Fin) M = map Fin row0 # map (map Fin) rest" using M by simp
  have "calculateCovarianceMatrix (map (map Fin) M) =
    Inr (map (\<lambda>i. map (\<lambda>j. js_div (sumProduct_of (map (map Fin) M)
             (meanReturns_of (map (map Fin) M) K (length M)) (length M) i j)
             (Fin (real (length M) - 1))) [0..<K]) [0..<K])"
    using calculateCovarianceMatrix_map [OF R] l0 K by simp
  also have "\<dots> = Inr (map (\<lambda>i. map (\<lambda>j. js_div
           (Fin (\<Sum>k<length M. (M ! k ! i - (\<Sum>d<length M. M ! d ! i) / real (length M))
                               * (M ! k ! j - (\<Sum>d<length M. M ! d ! j) / real (length M))))
           (Fin (real (length M) - 1))) [0..<K]) [0..<K])"
    unfolding meanReturns_of_Fin [OF rows n]
    using sumProduct_of_Fin [OF rows, where mu = "\<lambda>j. (\<Sum>d<length M. M ! d ! j) / real (length M)"]
    by (intro arg_cong [where f = Inr] map_cong refl) simp
  finally show ?thesis .
qed

text \<open>
  Claim C2, as amended. \<open>calculateCovarianceMatrix\<close> throws no error on any input:
  for an empty matrix (no days, or a first day without assets) it returns the empty
  matrix \<open>[]\<close>, and for a single day (\<open>N = 1\<close>) of \<open>K \<ge> 1\<close> finite returns it returns
  the \<open>K \<times> K\<close> matrix whose entries are all \<open>NaN\<close> (the quotient \<open>0 / 0\<close>).
\<close>

theorem calculateCovarianceMatrix_no_error:
  "(\<exists>m. calculateCovarianceMatrix returnsData = Inr m) \<and>
   calculateCovarianceMatrix [] = Inr [] \<and>
   calculateCovarianceMatrix ([] # rest) = Inr [] \<and>
   (row \<noteq> [] \<longrightarrow>
      calculateCovarianceMatrix [map Fin row] = Inr (replicate (length row) (replicate (length row) NaN)))"
proof (intro conjI impI)
  show "\<exists>m. calculateCovarianceMatrix returnsData = Inr m"
    by (simp add: calculateCovarianceMatrix_def Let_def split: list.split)
  show "calculateCovarianceMatrix [] = Inr []"
    by (simp add: calculateCovarianceMatrix_def)
  show "calculateCovarianceMatrix ([] # rest) = Inr []"
    by (simp add: calculateCovarianceMatrix_def)
next
  assume row: "row \<noteq> []"
  have "calculateCovarianceMatrix (map (map Fin) [row]) =
     Inr (map (\<lambda>i. map (\<lambda>j. NaN) [0..<length row]) [0..<length row])"
    using row by (subst calculateCovarianceMatrix_Fin [where K = "length row"]) simp_all
  then show "calculateCovarianceMatrix [map Fin row] = Inr (replicate (length row) (replicate (length row) NaN))"
    by (simp add: map_replicate_const)
qed

theorem calculateCovarianceMatrix_no_error_witness:
  "[1, 2 :: real] \<noteq> [] \<and> calculateCovarianceMatrix [map Fin [1, 2]] = Inr [[NaN, NaN], [NaN, NaN]]"
  using calculateCovarianceMatrix_no_error [where row = "[1, 2]"]
  by (simp add: numeral_eq_Suc)

text \<open>
  The claim as stated fails: on the empty matrix, and on a single day of two assets,
  the call returns a value and does not fail with \<open>InsufficientDataError\<close>.
\<close>

theorem calculateCovarianceMatrix_counterexample:
  "calculateCovarianceMatrix [] \<noteq> Inl InsufficientDataError \<and>
   calculateCovarianceMatrix [[Fin 1, Fin 2]] \<noteq> Inl InsufficientDataError \<and>
   calculateCovarianceMatrix [] = Inr [] \<and>
   calculateCovarianceMatrix [[Fin 1, Fin 2]] = Inr [[NaN, NaN], [NaN, NaN]]"
  by (simp add: calculateCovarianceMatrix_def sumProduct_of_def meanReturns_of_def nth_num_def
      js_sub_def upt_rec numeral_eq_Suc)

section \<open>Daily returns and the Sharpe guard\<close>

lemma map_zip_upt: "map (\<lambda>(x, i). f x i) (zip xs [0..<length xs]) = map (\<lambda>i. f (xs ! i) i) [0..<length xs]"
  by (rule nth_equalityI) simp_all

lemma calculateDailyReturns_map:
  "calculateDailyReturns prices =
     Inr (map (\<lambda>i. if i = 0 then Fin 0
                 else js_div (js_sub (prices ! i) (nth_num prices (i - 1))) (nth_num prices (i - 1)))
            [0..<length prices])"
  unfolding calculateDailyReturns_def 
  by (simp add: map_zip_upt [where f = "\<lambda>price index. if index = 0 then Fin 0
            else js_div (js_sub price (nth_num prices (index - 1))) (nth_num prices (index - 1))"])

lemma calculateDailyReturns_Fin:
  assumes "\<forall>p \<in> set P. p \<noteq> 0"
  shows "calculateDailyReturns (map Fin P) =
     Inr (map (\<lambda>i. if i = 0 then Fin 0 else Fin ((P ! i - P ! (i - 1)) / P ! (i - 1))) [0..<length P])"
  unfolding calculateDailyReturns_map using assms
  by (auto simp: nth_num_def js_sub_def)

lemma reconstruct_from_returns:
  assumes nz: "\<forall>p \<in> set P. p \<noteq> 0"
  shows "m < length P \<Longrightarrow>
    reconstruct_from (Fin (P ! m)) (map (\<lambda>i. if i = 0 then Fin 0 else Fin ((P ! i - P ! (i - 1)) / P ! (i - 1))) [Suc m..<length P])
      = map (\<lambda>i. Fin (P ! i)) [Suc m..<length P]"
proof (induction "length P - m" arbitrary: m)
  case 0
  then show ?case by simp
next
  case (Suc d)
  show ?case
  proof (cases "Suc m < length P")
    case False
    then show ?thesis by simp
  next
    case True
    have pm: "P ! m \<noteq> 0" using nz Suc.prems by simp
    have step: "P ! m * (1 + (P ! Suc m - P ! m) / P ! m) = P ! Suc m"
      using pm by (simp add: field_simps)
    have d: "d = length P - Suc m" using Suc.hyps(2) by simp
    from Suc.hyps(1) [OF d True] step True show ?thesis
      by (simp add: upt_conv_Cons [of "Suc m"] Let_def)
  qed
qed

text \<open>
  Claim C7. For every non-empty price series \<open>S\<close> the first daily return is \<open>0\<close>; and for
  every series of finite, nonzero prices, rebuilding the prices from \<open>S[0]\<close> by
  \<open>p[i] = p[i-1] * (1 + returns[i])\<close> reproduces the series exactly (arithmetic on finite
  numbers being exact in this model).
\<close>

theorem calculateDailyReturns_roundtrip:
  "(S \<noteq> [] \<longrightarrow> (\<exists>rs. calculateDailyReturns S = Inr rs \<and> rs ! 0 = Fin 0)) \<and>
   ((\<forall>p \<in> set P. p \<noteq> 0) \<longrightarrow>
      (\<exists>rs. calculateDailyReturns (map Fin P) = Inr rs \<and>
            reconstruct_prices (nth_num (map Fin P) 0) rs = map Fin P))"
proof (intro conjI impI)
  assume "S \<noteq> []"
  then show "\<exists>rs. calculateDailyReturns S = Inr rs \<and> rs ! 0 = Fin 0"
    by (simp add: calculateDailyReturns_map upt_conv_Cons)
next
  assume nz: "\<forall>p \<in> set P. p \<noteq> 0"
  let ?rs = "map (\<lambda>i. if i = 0 then Fin 0 else Fin ((P ! i - P ! (i - 1)) / P ! (i - 1))) [0..<length P]"
  have "reconstruct_prices (nth_num (map Fin P) 0) ?rs = map Fin P"
  proof (cases P)
    case Nil
    then show ?thesis by (simp add: reconstruct_prices_def)
  next
    case (Cons p ps)
    then have l: "0 < length P" by simp
    have "reconstruct_prices (nth_num (map Fin P) 0) ?rs = Fin (P ! 0) # map (\<lambda>i. Fin (P ! i)) [Suc 0..<length P]"
      using l reconstruct_from_returns [OF nz l]
      by (simp add: reconstruct_prices_def upt_conv_Cons [of 0] nth_num_def)
    also have "\<dots> = map (\<lambda>i. Fin (P ! i)) [0..<length P]"
      using l by (simp add: upt_conv_Cons [of 0])
    also have "\<dots> = map Fin (map (\<lambda>i. P ! i) [0..<length P])" by (simp add: comp_def)
    also have "\<dots> = map Fin P" by (simp only: map_nth)
    finally show ?thesis .
  qed
  then show "\<exists>rs. calculateDailyReturns (map Fin P) = Inr rs \<and>
            reconstruct_prices (nth_num (map Fin P) 0) rs = map Fin P"
    using calculateDailyReturns_Fin [OF nz] by simp
qed

theorem calculateDailyReturns_roundtrip_witness:
  "[Fin 100, Fin 110, Fin 99] \<noteq> [] \<and> (100 :: real) \<noteq> 0 \<and> (110 :: real) \<noteq> 0 \<and> (99 :: real) \<noteq> 0 \<and>
   calculateDailyReturns (map Fin [100, 110, 99]) = Inr [Fin 0, Fin (1 / 10), Fin (- 1 / 10)] \<and>
   reconstruct_prices (Fin 100) [Fin 0, Fin (1 / 10), Fin (- 1 / 10)] = map Fin [100, 110, 99]"
proof -
  have c: "calculateDailyReturns (map Fin [100, 110, 99]) = Inr [Fin 0, Fin (1 / 10), Fin (- 1 / 10)]"
    by (simp add: calculateDailyReturns_def nth_num_def js_sub_def upt_rec)
  from calculateDailyReturns_roundtrip [of "[Fin 100, Fin 110, Fin 99]" "[100, 110, 99]"] c
  show ?thesis by (simp add: nth_num_def)
qed

text \<open>
  Claim C5, as amended. \<open>calculateDailyReturns\<close> throws on no input; where the prior-day
  price is \<open>0\<close> the return at that index is silently \<open>Infinity\<close>, \<open>-Infinity\<close> or \<open>NaN\<close>,
  by the sign of the current price. Zero volatility is no error: whenever the volatility
  computed by \<open>calculatePortfolioMetrics\<close> is \<open>0\<close>, its \<open>sharpeRatio\<close> is exactly \<open>0\<close>.
\<close>

theorem degenerate_inputs:
  "(\<exists>rs. calculateDailyReturns prices = Inr rs) \<and>
   (0 < i \<and> i < length P \<and> P ! (i - 1) = 0 \<longrightarrow>
      (\<exists>rs. calculateDailyReturns (map Fin P) = Inr rs \<and>
            rs ! i = (if 0 < P ! i then PInf else if P ! i < 0 then NInf else NaN))) \<and>
   (m_volatility (calculatePortfolioMetrics weights returns) = Fin 0 \<longrightarrow>
      m_sharpeRatio (calculatePortfolioMetrics weights returns) = Fin 0)"
proof (intro conjI impI)
  show "\<exists>rs. calculateDailyReturns prices = Inr rs"
    by (simp add: calculateDailyReturns_def)
next
  assume a: "0 < i \<and> i < length P \<and> P ! (i - 1) = 0"
  then have "i - 1 < length P" by linarith
  with a show "\<exists>rs. calculateDailyReturns (map Fin P) = Inr rs \<and>
            rs ! i = (if 0 < P ! i then PInf else if P ! i < 0 then NInf else NaN)"
    by (simp add: calculateDailyReturns_map nth_num_def js_sub_def)
next
  assume "m_volatility (calculatePortfolioMetrics weights returns) = Fin 0"
  then show "m_sharpeRatio (calculatePortfolioMetrics weights returns) = Fin 0"
    by (simp add: calculatePortfolioMetrics_def Let_def)
qed

theorem degenerate_inputs_witness:
  "0 < (1::nat) \<and> 1 < length [0, 5 :: real] \<and> [0, 5 :: real] ! (1 - 1) = 0 \<and>
   calculateDailyReturns (map Fin [0, 5]) = Inr [Fin 0, PInf] \<and>
   m_volatility (calculatePortfolioMetrics [Fin 1] [[Fin 3], [Fin 3]]) = Fin 0 \<and>
   m_sharpeRatio (calculatePortfolioMetrics [Fin 1] [[Fin 3], [Fin 3]]) = Fin 0"
proof -
  have v: "m_volatility (calculatePortfolioMetrics [Fin 1] [[Fin 3], [Fin 3]]) = Fin 0"
    by (simp add: calculatePortfolioMetrics_def portfolioReturns_def Let_def nth_num_def js_sub_def)
  have c: "calculateDailyReturns (map Fin [0, 5]) = Inr [Fin 0, PInf]"
    by (simp add: calculateDailyReturns_def nth_num_def js_sub_def upt_rec)
  from degenerate_inputs [of _ 1 "[0, 5]" "[Fin 1]" "[[Fin 3], [Fin 3]]"] v c
  show ?thesis by simp
qed

text \<open>
  The claim as stated fails: with a zero prior-day price the call returns an array holding
  \<open>Infinity\<close> or \<open>NaN\<close> and does not fail with \<open>DegenerateInputError\<close>.
\<close>

theorem calculateDailyReturns_counterexample:
  "calculateDailyReturns [Fin 0, Fin 5] \<noteq> Inl DegenerateInputError \<and>
   calculateDailyReturns [Fin 0, Fin 5] = Inr [Fin 0, PInf] \<and>
   calculateDailyReturns [Fin 0, Fin 0] = Inr [Fin 0, NaN]"
  by (simp add: calculateDailyReturns_def nth_num_def js_sub_def upt_rec)

section \<open>Relative strength index\<close>

lemma rsi_of_Fin:
  assumes "0 \<le> G" "0 \<le> L"
  shows "rsi_of (Fin G) (Fin L) =
     (if L \<noteq> 0 then Fin (100 - 100 / (1 + G / L)) else if 0 < G then Fin 100 else NaN)"
proof -
  have "1 + G / L \<noteq> 0" if "L \<noteq> 0"
  proof -
    have "0 \<le> G / L" using assms by simp
    then show ?thesis by linarith
  qed
  then show ?thesis using assms by (auto simp: rsi_of_def Let_def js_sub_def)
qed

lemma reduce_add_Fin: "xs \<noteq> [] \<Longrightarrow> reduce_add (map Fin xs) = Inr (Fin (sum_list xs))"
  by (cases xs) (simp_all add: reduce_add_def foldl_js_add_Fin)

lemma slice_upt: "a \<le> n \<Longrightarrow> slice (map f [0..<n]) a n = map f [a..<n]"
  by (simp add: slice_def take_map drop_map)

lemma reduce_add_window:
  assumes "a < n"
  shows "reduce_add (slice (map (\<lambda>k. Fin (f k)) [0..<n]) a n) = Inr (Fin (\<Sum>k = a..<n. f k))"
proof -
  have s: "slice (map (\<lambda>k. Fin (f k)) [0..<n]) a n = map Fin (map f [a..<n])"
    using assms by (simp add: slice_upt comp_def)
  have "map f [a..<n] \<noteq> []" using assms by simp
  then have "reduce_add (map Fin (map f [a..<n])) = Inr (Fin (sum_list (map f [a..<n])))"
    by (rule reduce_add_Fin)
  then have "reduce_add (slice (map (\<lambda>k. Fin (f k)) [0..<n]) a n) = Inr (Fin (sum_list (map f [a..<n])))"
    by (simp only: s)
  also have "sum_list (map f [a..<n]) = (\<Sum>k = a..<n. f k)"
    by (simp only: interv_sum_list_conv_sum_set_nat set_upt)
  finally show ?thesis .
qed

lemma rsi_step_Fin:
  assumes p: "1 \<le> period" and m: "Suc m < length P"
  shows "rsi_step (map Fin P) period (Suc m)
           (rsi, map (\<lambda>k. Fin (max (P ! Suc k - P ! k) 0)) [0..<m],
                 map (\<lambda>k. Fin (max (P ! k - P ! Suc k) 0)) [0..<m])
     = Inr (rsi @ [if Suc m < period then Null
                   else Num (rsi_of (Fin ((\<Sum>k = Suc m - period..<Suc m. max (P ! Suc k - P ! k) 0) / real period))
                                    (Fin ((\<Sum>k = Suc m - period..<Suc m. max (P ! k - P ! Suc k) 0) / real period)))],
            map (\<lambda>k. Fin (max (P ! Suc k - P ! k) 0)) [0..<Suc m],
            map (\<lambda>k. Fin (max (P ! k - P ! Suc k) 0)) [0..<Suc m])"
proof -
  have d: "js_sub (nth_num (map Fin P) (Suc m)) (nth_num (map Fin P) (Suc m - 1)) = Fin (P ! Suc m - P ! m)"
    using m by (simp add: nth_num_def js_sub_def)
  have g: "map (\<lambda>k. Fin (max (P ! Suc k - P ! k) 0)) [0..<m] @ [Math_max (Fin (P ! Suc m - P ! m)) (Fin 0)]
         = map (\<lambda>k. Fin (max (P ! Suc k - P ! k) 0)) [0..<Suc m]"
    by simp
  have l: "map (\<lambda>k. Fin (max (P ! k - P ! Suc k) 0)) [0..<m] @ [Math_max (js_neg (Fin (P ! Suc m - P ! m))) (Fin 0)]
         = map (\<lambda>k. Fin (max (P ! k - P ! Suc k) 0)) [0..<Suc m]"
    by simp
  show ?thesis
  proof (cases "Suc m < period")
    case True
    then show ?thesis unfolding rsi_step_def prod.case Let_def d g l by simp
  next
    case False
    then have a: "Suc m - period < Suc m" using p by linarith
    have dv: "js_div (Fin x) (Fin (real period)) = Fin (x / real period)" for x
      using p by simp
    show ?thesis unfolding rsi_step_def prod.case Let_def d g l
      using False by (simp only: reduce_add_window [OF a] sum.case if_False dv)
  qed
qed

lemma rsi_fold_Fin:
  assumes p: "1 \<le> period" and n: "Suc m \<le> length P"
  shows "fold (\<lambda>i st. case st of Inl e \<Rightarrow> Inl e | Inr s \<Rightarrow> rsi_step (map Fin P) period i s)
           [1..<Suc m] (Inr ([], [], []))
     = Inr (map (\<lambda>i. if i < period then Null
                      else Num (rsi_of (Fin ((\<Sum>k = i - period..<i. max (P ! Suc k - P ! k) 0) / real period))
                                       (Fin ((\<Sum>k = i - period..<i. max (P ! k - P ! Suc k) 0) / real period))))
              [1..<Suc m],
            map (\<lambda>k. Fin (max (P ! Suc k - P ! k) 0)) [0..<m],
            map (\<lambda>k. Fin (max (P ! k - P ! Suc k) 0)) [0..<m])"
  using n
proof (induction m)
  case 0
  then show ?case by simp
next
  case (Suc m)
  then have nl: "Suc m < length P" and le: "Suc m \<le> length P" by simp_all
  let ?F = "\<lambda>i st. case st of Inl e \<Rightarrow> Inl e | Inr s \<Rightarrow> rsi_step (map Fin P) period i s"
  let ?E = "\<lambda>i. if i < period then Null
                      else Num (rsi_of (Fin ((\<Sum>k = i - period..<i. max (P ! Suc k - P ! k) 0) / real period))
                                       (Fin ((\<Sum>k = i - period..<i. max (P ! k - P ! Suc k) 0) / real period)))"
  have u: "[1..<Suc (Suc m)] = [1..<Suc m] @ [Suc m]" by simp
  have "fold ?F [1..<Suc (Suc m)] (Inr ([], [], [])) = ?F (Suc m) (fold ?F [1..<Suc m] (Inr ([], [], [])))"
    by (simp only: u fold_append o_apply fold_simps)
  also have "\<dots> = rsi_step (map Fin P) period (Suc m)
       (map ?E [1..<Suc m], map (\<lambda>k. Fin (max (P ! Suc k - P ! k) 0)) [0..<m],
            map (\<lambda>k. Fin (max (P ! k - P ! Suc k) 0)) [0..<m])"
    by (simp only: Suc.IH [OF le] sum.case)
  also have "\<dots> = Inr (map ?E [1..<Suc m] @ [?E (Suc m)],
            map (\<lambda>k. Fin (max (P ! Suc k - P ! k) 0)) [0..<Suc m],
            map (\<lambda>k. Fin (max (P ! k - P ! Suc k) 0)) [0..<Suc m])"
    by (rule rsi_step_Fin [OF p nl])
  also have "map ?E [1..<Suc m] @ [?E (Suc m)] = map ?E [1..<Suc (Suc m)]"
    by (simp only: u map_append list.map)
  finally show ?case .
qed

lemma calculateRSI_Fin:
  assumes p: "1 \<le> period"
  shows "calculateRSI (map Fin P) period =
     Inr (map (\<lambda>i. if i < period then Null
                      else Num (rsi_of (Fin ((\<Sum>k = i - period..<i. max (P ! Suc k - P ! k) 0) / real period))
                                       (Fin ((\<Sum>k = i - period..<i. max (P ! k - P ! Suc k) 0) / real period))))
              [1..<length P])"
proof (cases P)
  case Nil
  then show ?thesis by (simp add: calculateRSI_def)
next
  case (Cons a list)
  then obtain m where m: "length P = Suc m" by simp
  then have le: "Suc m \<le> length P" and m': "length (map Fin P) = Suc m" by simp_all
  show ?thesis
    unfolding calculateRSI_def m m'
    by (simp only: rsi_fold_Fin [OF p le] sum.case prod.case)
qed

lemma rsi_of_range:
  assumes "0 \<le> G" "0 \<le> L" "\<not> (G = 0 \<and> L = 0)"
  shows "\<exists>r. rsi_of (Fin G) (Fin L) = Fin r \<and> 0 \<le> r \<and> r \<le> 100"
proof (cases "L = 0")
  case True
  then show ?thesis using assms by (simp add: rsi_of_Fin)
next
  case False
  have q: "0 \<le> G / L" using assms by simp
  then have o: "1 \<le> 1 + G / L" by linarith
  then have "100 / (1 + G / L) \<le> 100 / 1" by (intro divide_left_mono) simp_all
  moreover have "0 \<le> 100 / (1 + G / L)" using q by simp
  ultimately show ?thesis using assms False by (simp add: rsi_of_Fin)
qed

lemma window_sums:
  fixes S :: "real list"
  shows "0 \<le> (\<Sum>k = a..<b. max (S ! Suc k - S ! k) 0)"
    and "0 \<le> (\<Sum>k = a..<b. max (S ! k - S ! Suc k) 0)"
    and "((\<Sum>k = a..<b. max (S ! Suc k - S ! k) 0) = 0 \<and> (\<Sum>k = a..<b. max (S ! k - S ! Suc k) 0) = 0)
           \<longleftrightarrow> (\<forall>k \<in> {a..<b}. S ! Suc k = S ! k)"
proof -
  show "0 \<le> (\<Sum>k = a..<b. max (S ! Suc k - S ! k) 0)" by (rule sum_nonneg) simp
  show "0 \<le> (\<Sum>k = a..<b. max (S ! k - S ! Suc k) 0)" by (rule sum_nonneg) simp
  have e: "(max (x - y) 0 = 0 \<and> max (y - x) 0 = 0) = (x = y)" for x y :: real
    by (auto simp: max_def split: if_splits)
  have "(\<Sum>k = a..<b. max (S ! Suc k - S ! k) 0) = 0 \<longleftrightarrow> (\<forall>k \<in> {a..<b}. max (S ! Suc k - S ! k) 0 = 0)"
    by (rule sum_nonneg_eq_0_iff) simp_all
  moreover have "(\<Sum>k = a..<b. max (S ! k - S ! Suc k) 0) = 0 \<longleftrightarrow> (\<forall>k \<in> {a..<b}. max (S ! k - S ! Suc k) 0 = 0)"
    by (rule sum_nonneg_eq_0_iff) simp_all
  ultimately have "((\<Sum>k = a..<b. max (S ! Suc k - S ! k) 0) = 0 \<and> (\<Sum>k = a..<b. max (S ! k - S ! Suc k) 0) = 0)
           \<longleftrightarrow> (\<forall>k \<in> {a..<b}. max (S ! Suc k - S ! k) 0 = 0 \<and> max (S ! k - S ! Suc k) 0 = 0)"
    by blast
  then show "((\<Sum>k = a..<b. max (S ! Suc k - S ! k) 0) = 0 \<and> (\<Sum>k = a..<b. max (S ! k - S ! Suc k) 0) = 0)
           \<longleftrightarrow> (\<forall>k \<in> {a..<b}. S ! Suc k = S ! k)"
    by (simp only: e)
qed

lemma rsi_entry:
  fixes S :: "real list" and a b :: nat and G L :: real
  assumes p: "1 \<le> period"
  defines "G \<equiv> (\<Sum>k = a..<b. max (S ! Suc k - S ! k) 0)" and "L \<equiv> (\<Sum>k = a..<b. max (S ! k - S ! Suc k) 0)"
  shows "(if \<forall>k \<in> {a..<b}. S ! Suc k = S ! k
          then rsi_of (Fin (G / real period)) (Fin (L / real period)) = NaN
          else \<exists>r. rsi_of (Fin (G / real period)) (Fin (L / real period)) = Fin r \<and> 0 \<le> r \<and> r \<le> 100)"
proof -
  have g: "0 \<le> G / real period" and l: "0 \<le> L / real period"
    unfolding G_def L_def using window_sums(1,2) by simp_all
  have z: "(G / real period = 0 \<and> L / real period = 0) \<longleftrightarrow> (\<forall>k \<in> {a..<b}. S ! Suc k = S ! k)"
    using window_sums(3) [where a = a and b = b and S = S] p unfolding G_def L_def by simp
  show ?thesis
  proof (cases "\<forall>k \<in> {a..<b}. S ! Suc k = S ! k")
    case True
    with z have "G / real period = 0" "L / real period = 0" by blast+
    then have "rsi_of (Fin (G / real period)) (Fin (L / real period)) = rsi_of (Fin 0) (Fin 0)"
      by (simp only:)
    also have "\<dots> = NaN" by (simp add: rsi_of_Fin)
    finally show ?thesis using True by simp
  next
    case False
    with z have "\<not> (G / real period = 0 \<and> L / real period = 0)" by simp
    from rsi_of_range [OF g l this] show ?thesis by (simp only: False if_False)
  qed
qed

lemma rsi_entry_increasing:
  fixes S :: "real list"
  assumes p: "1 \<le> period" and ab: "a < b" and inc: "\<forall>k \<in> {a..<b}. S ! k < S ! Suc k"
  shows "rsi_of (Fin ((\<Sum>k = a..<b. max (S ! Suc k - S ! k) 0) / real period))
                (Fin ((\<Sum>k = a..<b. max (S ! k - S ! Suc k) 0) / real period)) = Fin 100"
proof -
  have i: "S ! k < S ! Suc k" if "k \<in> {a..<b}" for k using inc that by blast
  have "(\<Sum>k = a..<b. max (S ! k - S ! Suc k) 0) = (\<Sum>k = a..<b. 0)"
    using i by (intro sum.cong refl) (simp add: max_def less_imp_le)
  then have L: "(\<Sum>k = a..<b. max (S ! k - S ! Suc k) 0) = 0" by simp
  have "0 < (\<Sum>k = a..<b. max (S ! Suc k - S ! k) 0)"
  proof (rule sum_pos)
    show "finite {a..<b}" by simp
    show "{a..<b} \<noteq> {}" using ab by simp
    show "0 < max (S ! Suc k - S ! k) 0" if "k \<in> {a..<b}" for k using i [OF that] by simp
  qed
  then have G: "0 < (\<Sum>k = a..<b. max (S ! Suc k - S ! k) 0) / real period"
    using p by simp
  show ?thesis unfolding L using G by (simp add: rsi_of_Fin)
qed

text \<open>
  Claim C3, as amended. For every series \<open>S\<close> of finite prices, \<open>calculateRSI(S, 14)\<close>
  returns \<open>len(S) - 1\<close> entries, the first 13 of them \<open>null\<close>. A later entry \<open>j\<close> lies in
  the closed interval \<open>[0, 100]\<close> whenever the 15 prices \<open>S[j-13..j+1]\<close> of its window are
  not all equal, and is \<open>NaN\<close> when they are. For a strictly increasing \<open>S\<close> every
  non-null entry is exactly \<open>100\<close>.
\<close>

theorem calculateRSI_range:
  "\<exists>rsi. calculateRSI (map Fin S) 14 = Inr rsi \<and> length rsi = length S - 1 \<and>
     (\<forall>j < length rsi.
        (j < 13 \<longrightarrow> rsi ! j = Null) \<and>
        (13 \<le> j \<longrightarrow>
          (if \<forall>k \<in> {j - 13..j}. S ! Suc k = S ! k then rsi ! j = Num NaN
           else \<exists>r. rsi ! j = Num (Fin r) \<and> 0 \<le> r \<and> r \<le> 100))) \<and>
     ((\<forall>k. Suc k < length S \<longrightarrow> S ! k < S ! Suc k) \<longrightarrow>
        (\<forall>j < length rsi. rsi ! j \<noteq> Null \<longrightarrow> rsi ! j = Num (Fin 100)))"
proof -
  let ?G = "\<lambda>i. (\<Sum>k = i - 14..<i. max (S ! Suc k - S ! k) 0) / real (14::nat)"
  let ?L = "\<lambda>i. (\<Sum>k = i - 14..<i. max (S ! k - S ! Suc k) 0) / real (14::nat)"
  let ?E = "\<lambda>i. if i < 14 then Null else Num (rsi_of (Fin (?G i)) (Fin (?L i)))"
  have p: "1 \<le> (14::nat)" by simp
  have c: "calculateRSI (map Fin S) 14 = Inr (map ?E [1..<length S])"
    by (rule calculateRSI_Fin [OF p])
  have n: "map ?E [1..<length S] ! j = ?E (Suc j)" if "j < length S - 1" for j
  proof -
    have "[1..<length S] ! j = Suc j" using that by simp
    moreover have "j < length [1..<length S]" using that by simp
    ultimately show ?thesis by (simp only: nth_map)
  qed
  have A: "map ?E [1..<length S] ! j = Null" if "j < length S - 1" "j < 13" for j
    using that by (simp only: n) simp
  have B: "(if \<forall>k \<in> {j - 13..j}. S ! Suc k = S ! k then map ?E [1..<length S] ! j = Num NaN
           else \<exists>r. map ?E [1..<length S] ! j = Num (Fin r) \<and> 0 \<le> r \<and> r \<le> 100)"
    if "j < length S - 1" "13 \<le> j" for j
  proof -
    have w: "{j - 13..j} = {Suc j - 14..<Suc j}" using that by auto
    have ns: "\<not> Suc j < 14" using that by simp
    have e: "map ?E [1..<length S] ! j = Num (rsi_of (Fin (?G (Suc j))) (Fin (?L (Suc j))))"
      by (simp only: n [OF that(1)] ns if_False)
    note r = rsi_entry [OF p, where a = "Suc j - 14" and b = "Suc j" and S = S]
    show ?thesis unfolding e w using r by (simp only: jsval.inject)
  qed
  have C: "map ?E [1..<length S] ! j = Num (Fin 100)"
    if inc: "\<forall>k. Suc k < length S \<longrightarrow> S ! k < S ! Suc k" and j: "j < length S - 1"
      and nn: "map ?E [1..<length S] ! j \<noteq> Null" for j
  proof -
    have ns: "\<not> Suc j < 14"
    proof
      assume "Suc j < 14"
      then have "?E (Suc j) = Null" by (simp only: if_True)
      with n [OF j] have "map ?E [1..<length S] ! j = Null" by (rule trans)
      with nn show False by (rule notE)
    qed
    have e: "map ?E [1..<length S] ! j = Num (rsi_of (Fin (?G (Suc j))) (Fin (?L (Suc j))))"
      by (simp only: n [OF j] ns if_False)
    have ab: "Suc j - 14 < Suc j" by simp
    have "\<forall>k \<in> {Suc j - 14..<Suc j}. S ! k < S ! Suc k" using inc j by auto
    from rsi_entry_increasing [OF p ab this] show ?thesis
      unfolding e by (simp only:)
  qed
  have len: "length (map ?E [1..<length S]) = length S - 1" by simp
  show ?thesis
  proof (intro exI [of _ "map ?E [1..<length S]"] conjI allI impI)
    show "calculateRSI (map Fin S) 14 = Inr (map ?E [1..<length S])" by (rule c)
    show "length (map ?E [1..<length S]) = length S - 1" by (rule len)
  next
    fix j assume "j < length (map ?E [1..<length S])" and j13: "j < 13"
    then have "j < length S - 1" by (simp only: len)
    then show "map ?E [1..<length S] ! j = Null" using j13 by (rule A)
  next
    fix j assume "j < length (map ?E [1..<length S])" "13 \<le> j"
    then have "j < length S - 1" by (simp only: len)
    from B [OF this \<open>13 \<le> j\<close>]
    show "(if \<forall>k \<in> {j - 13..j}. S ! Suc k = S ! k then map ?E [1..<length S] ! j = Num NaN
           else \<exists>r. map ?E [1..<length S] ! j = Num (Fin r) \<and> 0 \<le> r \<and> r \<le> 100)" .
  next
    fix j assume inc: "\<forall>k. Suc k < length S \<longrightarrow> S ! k < S ! Suc k"
      and "j < length (map ?E [1..<length S])"
      and nn: "map ?E [1..<length S] ! j \<noteq> Null"
    then have "j < length S - 1" by (simp only: len)
    with inc show "map ?E [1..<length S] ! j = Num (Fin 100)" using nn by (rule C)
  qed
qed

theorem calculateRSI_range_witness:
  "\<exists>rsi. calculateRSI (map Fin (map real [1..<17])) 14 = Inr rsi \<and> length rsi = 15 \<and>
     rsi ! 0 = Null \<and> rsi ! 13 = Num (Fin 100) \<and> rsi ! 14 = Num (Fin 100)"
proof -
  let ?S = "map real [1..<17]"
  obtain rsi where r: "calculateRSI (map Fin ?S) 14 = Inr rsi"
    and len: "length rsi = length ?S - 1"
    and A: "\<forall>j < length rsi.
        (j < 13 \<longrightarrow> rsi ! j = Null) \<and>
        (13 \<le> j \<longrightarrow>
          (if \<forall>k \<in> {j - 13..j}. ?S ! Suc k = ?S ! k then rsi ! j = Num NaN
           else \<exists>r. rsi ! j = Num (Fin r) \<and> 0 \<le> r \<and> r \<le> 100))"
    and C: "(\<forall>k. Suc k < length ?S \<longrightarrow> ?S ! k < ?S ! Suc k) \<longrightarrow>
        (\<forall>j < length rsi. rsi ! j \<noteq> Null \<longrightarrow> rsi ! j = Num (Fin 100))"
    using calculateRSI_range [of ?S] by blast
  have l: "length rsi = 15" using len by simp
  have inc: "\<forall>k. Suc k < length ?S \<longrightarrow> ?S ! k < ?S ! Suc k" by simp
  have n0: "rsi ! 0 = Null" using A l by simp
  have nn: "rsi ! j \<noteq> Null" if "13 \<le> j" "j < 15" for j
    using A l that by (auto split: if_splits)
  have "rsi ! 13 = Num (Fin 100)" "rsi ! 14 = Num (Fin 100)"
    using C inc l nn by simp_all
  with r l n0 show ?thesis by blast
qed

text \<open>
  The claim as stated fails: a non-constant series may hold a constant window. For fifteen
  prices \<open>1\<close> followed by a price \<open>2\<close> the entry at index 13 is defined (not \<open>null\<close>)
  and is \<open>NaN\<close>, outside \<open>[0, 100]\<close>.
\<close>

theorem calculateRSI_range_counterexample:
  "calculateRSI (replicate 15 (Fin 1) @ [Fin 2]) 14 = Inr (replicate 13 Null @ [Num NaN, Num (Fin 100)])"
  by code_simp

text \<open>
  Claim C6, as amended. For a constant price series \<open>calculateRSI\<close> does not crash: it
  returns \<open>null\<close> in its first 13 entries and \<open>NaN\<close> in every later entry; the quotient
  \<open>0 / 0\<close> of \<open>rs\<close> is not resolved to another value.
\<close>

theorem calculateRSI_constant:
  "calculateRSI (map Fin (replicate n c)) 14 =
     Inr (replicate (min (n - 1) 13) Null @ replicate (n - 14) (Num NaN))"
proof -
  let ?S = "replicate n c"
  let ?G = "\<lambda>i. (\<Sum>k = i - 14..<i. max (?S ! Suc k - ?S ! k) 0) / real (14::nat)"
  let ?L = "\<lambda>i. (\<Sum>k = i - 14..<i. max (?S ! k - ?S ! Suc k) 0) / real (14::nat)"
  let ?E = "\<lambda>i. if i < 14 then Null else Num (rsi_of (Fin (?G i)) (Fin (?L i)))"
  have p: "1 \<le> (14::nat)" by simp
  have c: "calculateRSI (map Fin ?S) 14 = Inr (map ?E [1..<length ?S])"
    by (rule calculateRSI_Fin [OF p])
  have e: "?E i = (if i < 14 then Null else Num NaN)" if "i < n" for i
  proof -
    have "\<forall>k \<in> {i - 14..<i}. ?S ! Suc k = ?S ! k" using that by simp
    with rsi_entry [OF p, where a = "i - 14" and b = i and S = ?S]
    have "rsi_of (Fin (?G i)) (Fin (?L i)) = NaN" by (simp only: if_True)
    then show ?thesis by (simp only:)
  qed
  have "map ?E [1..<length ?S] = map (\<lambda>i. if i < 14 then Null else Num NaN) [1..<n]"
    by (rule map_cong) (simp_all add: e del: upt_Suc)
  also have "\<dots> = replicate (min (n - 1) 13) Null @ replicate (n - 14) (Num NaN)"
    by (rule nth_equalityI) (auto simp: nth_append simp del: upt_Suc)
  finally show ?thesis using c by (simp only:)
qed

theorem calculateRSI_constant_witness:
  "calculateRSI (map Fin (replicate 16 7)) 14 = Inr (replicate 13 Null @ replicate 2 (Num NaN))"
  using calculateRSI_constant [of 16 7] by simp

text \<open>
  The claim as stated fails: for fifteen equal prices the one computed entry is \<open>NaN\<close>,
  neither a number nor the \<open>null\<close> marker.
\<close>

theorem calculateRSI_constant_counterexample:
  "calculateRSI (replicate 15 (Fin 7)) 14 = Inr (replicate 13 Null @ [Num NaN])"
  by code_simp

section \<open>Exponential moving average and MACD\<close>

lemma reduce_add_nonempty: "xs \<noteq> [] \<Longrightarrow> \<exists>s. reduce_add xs = Inr s"
  by (cases xs) (simp_all add: reduce_add_def)

lemma ema_step_shape:
  assumes p: "1 \<le> period" and n: "n < length prices" and l: "length ema = n"
  shows "\<exists>v. ema_step prices period n ema = Inr (ema @ [v]) \<and> (v = Null) = (n < period - 1)"
proof -
  consider "int n < int period - 1" | "int n = int period - 1" | "int period - 1 < int n" by linarith
  then show ?thesis
  proof cases
    case 1
    then have "n < period - 1" by linarith
    with 1 show ?thesis by (simp add: ema_step_def)
  next
    case 2
    then have np: "\<not> n < period - 1" and k: "period = Suc n" using p by linarith+
    have "slice prices 0 period \<noteq> []" using n k by (cases prices) (simp_all add: slice_def)
    from reduce_add_nonempty [OF this] obtain s where "reduce_add (slice prices 0 period) = Inr s" ..
    with 2 np show ?thesis by (simp add: ema_step_def)
  next
    case 3
    then have np: "\<not> n < period - 1" by linarith
    with 3 show ?thesis by (simp add: ema_step_def Let_def)
  qed
qed

lemma ema_fold_shape:
  assumes p: "1 \<le> period"
  shows "n \<le> length prices \<Longrightarrow>
    \<exists>ema. fold (\<lambda>i st. case st of Inl e \<Rightarrow> Inl e | Inr ema \<Rightarrow> ema_step prices period i ema) [0..<n] (Inr []) = Inr ema
       \<and> length ema = n \<and> (\<forall>i < n. (ema ! i = Null) = (i < period - 1))"
proof (induction n)
  case 0
  then show ?case by simp
next
  case (Suc n)
  then obtain ema where f: "fold (\<lambda>i st. case st of Inl e \<Rightarrow> Inl e | Inr ema \<Rightarrow> ema_step prices period i ema) [0..<n] (Inr []) = Inr ema"
    and l: "length ema = n" and s: "\<forall>i < n. (ema ! i = Null) = (i < period - 1)" by auto
  from Suc.prems have n: "n < length prices" by simp
  from ema_step_shape [OF p n l] obtain v where
    v: "ema_step prices period n ema = Inr (ema @ [v])" "(v = Null) = (n < period - 1)" by blast
  have "\<forall>i < Suc n. ((ema @ [v]) ! i = Null) = (i < period - 1)"
    using s v(2) l by (auto simp: nth_append less_Suc_eq)
  with f v(1) l show ?case by simp
qed

lemma calculateEMA_shape:
  assumes p: "1 \<le> period"
  shows "\<exists>ema. calculateEMA prices period = Inr ema \<and> length ema = length prices \<and>
           (\<forall>i < length prices. (ema ! i = Null) = (i < period - 1))"
  unfolding calculateEMA_def using ema_fold_shape [OF p order_refl] .

lemma reduce_add_zeros: "0 < n \<Longrightarrow> reduce_add (replicate n (Fin 0)) = Inr (Fin 0)"
proof -
  assume "0 < n"
  then have "replicate n (0::real) \<noteq> []" by simp
  from reduce_add_Fin [OF this] show ?thesis by (simp add: map_replicate sum_list_replicate)
qed

lemma ema_step_zeros:
  assumes p: "1 \<le> period" and n: "n < N"
  shows "ema_step (replicate N (Fin 0)) period n
           (replicate (min n (period - 1)) Null @ replicate (n - (period - 1)) (Num (Fin 0)))
       = Inr (replicate (min (Suc n) (period - 1)) Null @ replicate (Suc n - (period - 1)) (Num (Fin 0)))"
proof -
  consider "int n < int period - 1" | "int n = int period - 1" | "int period - 1 < int n" by linarith
  then show ?thesis
  proof cases
    case 1
    then have "n < period - 1" by linarith
    then have "min n (period - 1) = n" "n - (period - 1) = 0"
      "min (Suc n) (period - 1) = Suc n" "Suc n - (period - 1) = 0" by simp_all
    with 1 show ?thesis by (simp add: ema_step_def replicate_append_same)
  next
    case 2
    then have k: "period = Suc n" using p by linarith
    have "slice (replicate N (Fin 0)) 0 period = replicate period (Fin 0)"
      using n k by (simp add: slice_def min_def)
    then have "reduce_add (slice (replicate N (Fin 0)) 0 period) = Inr (Fin 0)"
      using p by (simp add: reduce_add_zeros)
    with 2 k show ?thesis by (simp add: ema_step_def)
  next
    case 3
    then have g: "period - 1 < n" using p by linarith
    then have m: "min n (period - 1) = period - 1" "min (Suc n) (period - 1) = period - 1"
      and d: "Suc n - (period - 1) = Suc (n - (period - 1))" by simp_all
    have prev: "js_get (replicate (period - 1) Null @ replicate (n - (period - 1)) (Num (Fin 0))) (int n - 1)
                 = Num (Fin 0)"
    proof -
      have i: "nat (int n - 1) = n - 1" and r: "0 \<le> int n - 1" "int n - 1 < int n" using g by simp_all
      have ge: "\<not> n - 1 < period - 1" and lt: "n - 1 - (period - 1) < n - (period - 1)"
        using g by linarith+
      have "(replicate (period - 1) Null @ replicate (n - (period - 1)) (Num (Fin 0))) ! (n - 1) = Num (Fin 0)"
        using ge lt by (simp only: nth_append length_replicate if_False nth_replicate)
      then show ?thesis using g r by (simp add: js_get_def i)
    qed
    show ?thesis
      unfolding m d using 3 g prev n
      by (simp add: ema_step_def Let_def nth_num_def js_sub_def replicate_append_same)
  qed
qed

lemma calculateEMA_zeros:
  assumes p: "1 \<le> period"
  shows "calculateEMA (replicate N (Fin 0)) period =
     Inr (replicate (min N (period - 1)) Null @ replicate (N - (period - 1)) (Num (Fin 0)))"
proof -
  have "n \<le> N \<Longrightarrow> fold (\<lambda>i st. case st of Inl e \<Rightarrow> Inl e | Inr ema \<Rightarrow> ema_step (replicate N (Fin 0)) period i ema)
       [0..<n] (Inr []) = Inr (replicate (min n (period - 1)) Null @ replicate (n - (period - 1)) (Num (Fin 0)))" for n
  proof (induction n)
    case 0
    then show ?case by simp
  next
    case (Suc n)
    then have n: "n < N" by simp
    have "fold (\<lambda>i st. case st of Inl e \<Rightarrow> Inl e | Inr ema \<Rightarrow> ema_step (replicate N (Fin 0)) period i ema)
       [0..<Suc n] (Inr []) = ema_step (replicate N (Fin 0)) period n
           (replicate (min n (period - 1)) Null @ replicate (n - (period - 1)) (Num (Fin 0)))"
      using Suc by simp
    then show ?case by (simp only: ema_step_zeros [OF p n])
  qed
  from this [of N] show ?thesis by (simp add: calculateEMA_def)
qed

lemma macd_all_falsy:
  assumes "\<forall>fast \<in> set ema12. js_not fast"
  shows "map (\<lambda>(fast, i). macd_entry ema26 fast i) (zip ema12 [0..<length ema12]) = replicate (length ema12) Null"
proof (rule nth_equalityI)
  show "length (map (\<lambda>(fast, i). macd_entry ema26 fast i) (zip ema12 [0..<length ema12])) = length (replicate (length ema12) Null)"
    by simp
next
  fix i assume "i < length (map (\<lambda>(fast, i). macd_entry ema26 fast i) (zip ema12 [0..<length ema12]))"
  then have i: "i < length ema12" by simp
  then have "js_not (ema12 ! i)" using assms by simp
  then show "map (\<lambda>(fast, i). macd_entry ema26 fast i) (zip ema12 [0..<length ema12]) ! i = replicate (length ema12) Null ! i"
    using i by (simp add: macd_entry_def)
qed

lemma calculateMACD_signal:
  assumes "calculateMACD prices fastPeriod slowPeriod signalPeriod = Inr r"
  shows "calculateEMA (map ToNumber (filter (\<lambda>x. x \<noteq> Null) (macd r))) signalPeriod = Inr (signal r)"
  using assms by (auto simp: calculateMACD_def Let_def split: sum.splits)

lemma calculateMACD_entry:
  assumes r: "calculateMACD prices fastPeriod slowPeriod signalPeriod = Inr r"
    and f: "calculateEMA prices fastPeriod = Inr ema12" and s: "calculateEMA prices slowPeriod = Inr ema26"
    and p: "1 \<le> fastPeriod" "1 \<le> slowPeriod" and i: "i < length prices"
  shows "macd r ! i =
     (if js_not (ema12 ! i) \<or> js_not (ema26 ! i) then Null
      else Num (js_sub (ToNumber (ema12 ! i)) (ToNumber (ema26 ! i))))"
proof -
  have l: "length ema12 = length prices" "length ema26 = length prices"
    using calculateEMA_shape [OF p(1), of prices] calculateEMA_shape [OF p(2), of prices] f s by auto
  have "macd r = map (\<lambda>(fast, i). macd_entry ema26 fast i) (zip ema12 [0..<length ema12])"
    using r f s by (auto simp: calculateMACD_def Let_def split: sum.splits)
  then have "macd r ! i = macd_entry ema26 (ema12 ! i) i" using i l by simp
  then show ?thesis using i l by (simp add: macd_entry_def js_get_def)
qed

text \<open>
  Claim C4, at the input where the code departs from it. For 26 prices equal to \<open>0\<close>
  both moving averages are defined at index 25 (each is the number \<open>0\<close>), yet the MACD
  line is \<open>null\<close> there: the test \<open>!fast || !ema26[i]\<close> takes the defined value \<open>0\<close>
  for a missing one. The signal line is the EMA of the compacted MACD line, here empty.
\<close>

theorem calculateMACD_zero_prices:
  "calculateEMA (replicate 26 (Fin 0)) 12 = Inr (replicate 11 Null @ replicate 15 (Num (Fin 0))) \<and>
   calculateEMA (replicate 26 (Fin 0)) 26 = Inr (replicate 25 Null @ [Num (Fin 0)]) \<and>
   calculateMACD (replicate 26 (Fin 0)) 12 26 9 = Inr \<lparr>macd = replicate 26 Null, signal = []\<rparr>"
proof -
  have a: "calculateEMA (replicate 26 (Fin 0)) 12 = Inr (replicate 11 Null @ replicate 15 (Num (Fin 0)))"
    by (simp add: calculateEMA_zeros)
  have b: "calculateEMA (replicate 26 (Fin 0)) 26 = Inr (replicate 25 Null @ [Num (Fin 0)])"
    by (simp add: calculateEMA_zeros)
  have f: "\<forall>fast \<in> set (replicate 11 Null @ replicate 15 (Num (Fin 0))). js_not fast" by auto
  have e: "calculateEMA [] 9 = Inr []" by (simp add: calculateEMA_def)
  have "calculateMACD (replicate 26 (Fin 0)) 12 26 9 = Inr \<lparr>macd = replicate 26 Null, signal = []\<rparr>"
    unfolding calculateMACD_def a b sum.case Let_def macd_all_falsy [OF f]
    by (simp add: e)
  with a b show ?thesis by blast
qed

section \<open>Random weights\<close>

lemma normalize_Fin:
  assumes "sum_list ds \<noteq> 0"
  shows "normalize (map Fin ds) = map Fin (map (\<lambda>d. d / sum_list ds) ds)"
  using assms by (simp add: normalize_def reduce_add0_Fin Let_def)

lemma sum_list_divide: "sum_list (map (\<lambda>d. d / s) ds) = sum_list ds / (s :: real)"
  by (induction ds) (simp_all add: add_divide_distrib)

lemma sum_list_pos_real:
  fixes ds :: "real list"
  assumes "\<forall>d \<in> set ds. 0 \<le> d" "\<exists>d \<in> set ds. d \<noteq> 0"
  shows "0 < sum_list ds"
proof -
  have "0 \<le> sum_list ds" using assms(1) by (simp add: sum_list_nonneg)
  moreover have "sum_list ds \<noteq> 0"
    using assms sum_list_nonneg_eq_0_iff [of ds] by auto
  ultimately show ?thesis by simp
qed

lemma normalize_draws:
  assumes range: "\<forall>n. 0 \<le> rnd n \<and> rnd n < 1"
    and nz: "\<exists>j < K. rnd (pos + j) \<noteq> 0"
  shows "\<exists>ws. normalize (draws rnd pos K) = map Fin ws \<and> length ws = K \<and>
           (\<forall>w \<in> set ws. 0 \<le> w) \<and> sum_list ws = 1"
proof -
  let ?ds = "map (\<lambda>j. rnd (pos + j)) [0..<K]"
  have d: "draws rnd pos K = map Fin ?ds" by (simp add: draws_def comp_def)
  have nonneg: "\<forall>d \<in> set ?ds. 0 \<le> d" using range by simp
  have "\<exists>d \<in> set ?ds. d \<noteq> 0" using nz by auto
  with nonneg have pos: "0 < sum_list ?ds" by (rule sum_list_pos_real)
  let ?ws = "map (\<lambda>d. d / sum_list ?ds) ?ds"
  have n: "normalize (draws rnd pos K) = map Fin ?ws"
    unfolding d using pos by (intro normalize_Fin) simp
  have s: "sum_list ?ws = 1" using pos by (simp only: sum_list_divide) simp
  have w: "\<forall>w \<in> set ?ws. 0 \<le> w" using nonneg pos by (auto intro!: divide_nonneg_pos)
  have l: "length ?ws = K" by simp
  from n l w s show ?thesis by blast
qed

text \<open>The frontier holds exactly the 50 sampled points, in another order.\<close>

lemma set_insert_by_risk: "set (insert_by_risk p qs) = insert p (set qs)"
  by (induction qs) auto

lemma length_insert_by_risk: "length (insert_by_risk p qs) = Suc (length qs)"
  by (induction qs) auto

lemma sort_by_risk_set_length:
  "set (foldl (\<lambda>acc p. insert_by_risk p acc) acc ps) = set acc \<union> set ps \<and>
   length (foldl (\<lambda>acc p. insert_by_risk p acc) acc ps) = length acc + length ps"
  by (induction ps arbitrary: acc) (auto simp: set_insert_by_risk length_insert_by_risk)

lemma generateEfficientFrontier_points:
  assumes "selectedStocks \<noteq> []"
  shows "set (generateEfficientFrontier selectedStocks rnd) = (\<lambda>i. frontier_point selectedStocks rnd i) ` {..<50}"
    and "length (generateEfficientFrontier selectedStocks rnd) = 50"
  using assms sort_by_risk_set_length [of "[]" "map (frontier_point selectedStocks rnd) [0..<50]"]
  by (simp_all add: generateEfficientFrontier_def sort_by_risk_def fold_push Let_def atLeast0LessThan)

lemma runMonteCarloSimulation_no_stocks: "runMonteCarloSimulation [] numSimulations rnd = Inr None"
  by (simp add: runMonteCarloSimulation_def)

text \<open>
  Claim C8, as amended. For every \<open>K \<ge> 1\<close> and every sequence of \<open>Math.random()\<close> results
  (each in \<open>[0, 1)\<close>) in which the \<open>K\<close> draws of a vector are not all \<open>0\<close>, the weight
  vector of the frontier sampler's point \<open>i\<close>, which is also the vector of the Monte Carlo
  simulator's trial \<open>i\<close>, consists of \<open>K\<close> finite numbers, all \<open>\<ge> 0\<close>, whose sum is
  exactly \<open>1\<close> (hence within \<open>1e-9\<close> of it).
\<close>

theorem sampler_weights:
  assumes K: "1 \<le> length selectedStocks"
    and range: "\<forall>n. 0 \<le> rnd n \<and> rnd n < 1"
    and nz: "\<exists>j < length selectedStocks. rnd (i * length selectedStocks + j) \<noteq> 0"
  shows "\<exists>ws. fp_weights (frontier_point selectedStocks rnd i) = map Fin ws \<and>
           normalize (draws rnd (i * length selectedStocks) (length selectedStocks)) = map Fin ws \<and>
           length ws = length selectedStocks \<and>
           (\<forall>w \<in> set ws. 0 \<le> w) \<and> sum_list ws = 1 \<and> \<bar>sum_list ws - 1\<bar> \<le> 1 / 10 ^ 9"
proof -
  from normalize_draws [OF range nz] obtain ws where
    ws: "normalize (draws rnd (i * length selectedStocks) (length selectedStocks)) = map Fin ws"
      "length ws = length selectedStocks" "\<forall>w \<in> set ws. 0 \<le> w" "sum_list ws = 1" by blast
  have "fp_weights (frontier_point selectedStocks rnd i) = map Fin ws"
    using ws(1) by (simp add: frontier_point_def Let_def)
  with ws show ?thesis by auto
qed

theorem sampler_weights_witness:
  "fp_weights (frontier_point [\<lparr>symbol = ''A'', dailyReturns = []\<rparr>, \<lparr>symbol = ''B'', dailyReturns = []\<rparr>]
      (\<lambda>n. if n = 0 then 1 / 4 else 3 / 4) 0) = map Fin [1 / 4, 3 / 4] \<and>
   sum_list [1 / 4, 3 / 4 :: real] = 1"
proof -
  let ?rnd = "\<lambda>n::nat. if n = 0 then 1 / 4 else 3 / 4 :: real"
  let ?st = "[\<lparr>symbol = ''A'', dailyReturns = []\<rparr>, \<lparr>symbol = ''B'', dailyReturns = []\<rparr>]"
  have K: "1 \<le> length ?st" by simp
  have range: "\<forall>n. 0 \<le> ?rnd n \<and> ?rnd n < 1" by simp
  have nz: "\<exists>j < length ?st. ?rnd (0 * length ?st + j) \<noteq> 0" by (intro exI [of _ 0]) simp
  from sampler_weights [OF K range nz] obtain ws where
    "fp_weights (frontier_point ?st ?rnd 0) = map Fin ws" "sum_list ws = 1" by blast
  moreover have "fp_weights (frontier_point ?st ?rnd 0) = map Fin [1 / 4, 3 / 4]"
    by (simp add: frontier_point_def Let_def normalize_def draws_def reduce_add0_def numeral_2_eq_2)
  ultimately show ?thesis by simp
qed

text \<open>
  The claim as stated fails for the draw in which every \<open>Math.random()\<close> result is \<open>0\<close>:
  with one asset the single weight is \<open>0 / 0 = NaN\<close>, neither \<open>\<ge> 0\<close> nor summing to \<open>1\<close>.
\<close>

theorem sampler_weights_counterexample:
  "normalize (draws (\<lambda>n. 0) 0 1) = [NaN] \<and>
   fp_weights (frontier_point [\<lparr>symbol = ''A'', dailyReturns = []\<rparr>] (\<lambda>n. 0) 0) = [NaN]"
  by (simp add: frontier_point_def Let_def normalize_def draws_def reduce_add0_def)

section \<open>Maximum Sharpe ratio\<close>

lemma js_gt_NaN [simp]: "\<not> js_gt a NaN" "\<not> js_gt NaN a"
  by (cases a; simp)+

lemma js_gt_trans: "js_gt a b \<Longrightarrow> js_gt b c \<Longrightarrow> js_gt a c"
  by (cases a; cases b; cases c) simp_all

lemma js_gt_total: "a \<noteq> NaN \<Longrightarrow> b \<noteq> NaN \<Longrightarrow> js_gt a b \<or> a = b \<or> js_gt b a"
  by (cases a; cases b) auto

lemma js_gt_irrefl: "\<not> js_gt a a"
  by (cases a) simp_all

lemma js_gt_asym: "js_gt a b \<Longrightarrow> \<not> js_gt b a"
  by (cases a; cases b) simp_all

lemma max_fold_invariant:
  defines "step \<equiv> \<lambda>mx point. if js_gt (fp_sharpeRatio point) (fp_sharpeRatio mx) then point else mx"
  assumes n: "n \<le> length ps" and ne: "ps \<noteq> []"
  shows "\<exists>k < length ps. foldl step (ps ! 0) (take n ps) = ps ! k \<and> (k = 0 \<or> k < n) \<and>
           (\<forall>j < n. \<not> js_gt (fp_sharpeRatio (ps ! j)) (fp_sharpeRatio (ps ! k))) \<and>
           (\<forall>j < k. js_gt (fp_sharpeRatio (ps ! k)) (fp_sharpeRatio (ps ! j)) \<or> fp_sharpeRatio (ps ! j) = NaN)"
  using n
proof (induction n)
  case 0
  then show ?case using ne by auto
next
  case (Suc n)
  then have nl: "n < length ps" by simp
  from Suc obtain k where k: "k < length ps" "foldl step (ps ! 0) (take n ps) = ps ! k" "k = 0 \<or> k < n"
    and mx: "\<forall>j < n. \<not> js_gt (fp_sharpeRatio (ps ! j)) (fp_sharpeRatio (ps ! k))"
    and early: "\<forall>j < k. js_gt (fp_sharpeRatio (ps ! k)) (fp_sharpeRatio (ps ! j)) \<or> fp_sharpeRatio (ps ! j) = NaN"
    by auto
  have f: "foldl step (ps ! 0) (take (Suc n) ps) = step (ps ! k) (ps ! n)"
    using nl k(2) by (simp add: take_Suc_conv_app_nth)
  show ?case
  proof (cases "js_gt (fp_sharpeRatio (ps ! n)) (fp_sharpeRatio (ps ! k))")
    case True
    have a: "\<not> js_gt (fp_sharpeRatio (ps ! j)) (fp_sharpeRatio (ps ! n))" if "j < Suc n" for j
    proof (cases "j = n")
      case True
      then show ?thesis by (simp add: js_gt_irrefl)
    next
      case False
      then have "j < n" using that by simp
      then have "\<not> js_gt (fp_sharpeRatio (ps ! j)) (fp_sharpeRatio (ps ! k))" using mx by simp
      then show ?thesis using True js_gt_trans js_gt_asym by blast
    qed
    have b: "js_gt (fp_sharpeRatio (ps ! n)) (fp_sharpeRatio (ps ! j)) \<or> fp_sharpeRatio (ps ! j) = NaN" if "j < n" for j
    proof (cases "fp_sharpeRatio (ps ! j) = NaN")
      case True
      then show ?thesis by simp
    next
      case False
      have kn: "fp_sharpeRatio (ps ! k) \<noteq> NaN" using \<open>js_gt (fp_sharpeRatio (ps ! n)) (fp_sharpeRatio (ps ! k))\<close>
        by (metis js_gt_NaN(1))
      have "\<not> js_gt (fp_sharpeRatio (ps ! j)) (fp_sharpeRatio (ps ! k))" using mx that by simp
      with js_gt_total [OF False kn]
      have "fp_sharpeRatio (ps ! j) = fp_sharpeRatio (ps ! k) \<or> js_gt (fp_sharpeRatio (ps ! k)) (fp_sharpeRatio (ps ! j))"
        by blast
      then show ?thesis using \<open>js_gt (fp_sharpeRatio (ps ! n)) (fp_sharpeRatio (ps ! k))\<close> js_gt_trans by metis
    qed
    have "foldl step (ps ! 0) (take (Suc n) ps) = ps ! n" using f True by (simp add: step_def)
    with nl a b show ?thesis by (intro exI [of _ n]) simp
  next
    case False
    have "foldl step (ps ! 0) (take (Suc n) ps) = ps ! k" using f False by (simp add: step_def)
    moreover have "\<forall>j < Suc n. \<not> js_gt (fp_sharpeRatio (ps ! j)) (fp_sharpeRatio (ps ! k))"
      using mx False by (simp add: less_Suc_eq)
    ultimately show ?thesis using k early by (intro exI [of _ k]) auto
  qed
qed

text \<open>
  What the fold with \<open>>\<close> yields on any non-empty collection, \<open>NaN\<close> ratios included.
\<close>

lemma findMaxSharpeRatio_fold:
  assumes ne: "ps \<noteq> []"
  shows "\<exists>k < length ps. findMaxSharpeRatio ps = Some (ps ! k) \<and>
         (\<forall>j < length ps. \<not> js_gt (fp_sharpeRatio (ps ! j)) (fp_sharpeRatio (ps ! k))) \<and>
         (\<forall>j < k. js_gt (fp_sharpeRatio (ps ! k)) (fp_sharpeRatio (ps ! j)) \<or> fp_sharpeRatio (ps ! j) = NaN)"
proof -
  from max_fold_invariant [OF order_refl ne] obtain k where k: "k < length ps"
    and f: "foldl (\<lambda>mx point. if js_gt (fp_sharpeRatio point) (fp_sharpeRatio mx) then point else mx)
              (ps ! 0) (take (length ps) ps) = ps ! k"
    and mx: "\<forall>j < length ps. \<not> js_gt (fp_sharpeRatio (ps ! j)) (fp_sharpeRatio (ps ! k))"
    and early: "\<forall>j < k. js_gt (fp_sharpeRatio (ps ! k)) (fp_sharpeRatio (ps ! j)) \<or> fp_sharpeRatio (ps ! j) = NaN"
    by blast
  have "findMaxSharpeRatio ps = Some (ps ! k)"
    using ne f by (cases ps) (simp_all add: findMaxSharpeRatio_def)
  with k mx early show ?thesis by blast
qed

text \<open>
  Claim C9, as amended. With no selected stocks \<open>generateEfficientFrontier\<close> returns the
  empty collection, and \<open>findMaxSharpeRatio\<close> of an empty collection is \<open>null\<close>. On a
  non-empty collection in which no \<open>sharpeRatio\<close> is \<open>NaN\<close> it returns a point \<open>ps[k]\<close>
  of maximal \<open>sharpeRatio\<close>: the ratio of every point is equal to or smaller than that of
  \<open>ps[k]\<close>, and that of every point seen before \<open>ps[k]\<close> is strictly smaller, so that on
  ties the earliest point is kept.
\<close>

theorem findMaxSharpeRatio_spec:
  "generateEfficientFrontier [] rnd = [] \<and>
   findMaxSharpeRatio [] = None \<and>
   (ps \<noteq> [] \<and> (\<forall>q \<in> set ps. fp_sharpeRatio q \<noteq> NaN) \<longrightarrow>
      (\<exists>k < length ps. findMaxSharpeRatio ps = Some (ps ! k) \<and>
         (\<forall>q \<in> set ps. fp_sharpeRatio q = fp_sharpeRatio (ps ! k) \<or>
                          js_gt (fp_sharpeRatio (ps ! k)) (fp_sharpeRatio q)) \<and>
         (\<forall>j < k. js_gt (fp_sharpeRatio (ps ! k)) (fp_sharpeRatio (ps ! j)))))"
proof (intro conjI impI)
  show "generateEfficientFrontier [] rnd = []" by (simp add: generateEfficientFrontier_def)
  show "findMaxSharpeRatio [] = None" by (simp add: findMaxSharpeRatio_def)
next
  assume a: "ps \<noteq> [] \<and> (\<forall>q \<in> set ps. fp_sharpeRatio q \<noteq> NaN)"
  then have ne: "ps \<noteq> []" and nn: "\<And>j. j < length ps \<Longrightarrow> fp_sharpeRatio (ps ! j) \<noteq> NaN"
    by simp_all
  from findMaxSharpeRatio_fold [OF ne] obtain k where k: "k < length ps"
    and r: "findMaxSharpeRatio ps = Some (ps ! k)"
    and mx: "\<forall>j < length ps. \<not> js_gt (fp_sharpeRatio (ps ! j)) (fp_sharpeRatio (ps ! k))"
    and early: "\<forall>j < k. js_gt (fp_sharpeRatio (ps ! k)) (fp_sharpeRatio (ps ! j)) \<or> fp_sharpeRatio (ps ! j) = NaN"
    by blast
  have top: "fp_sharpeRatio q = fp_sharpeRatio (ps ! k) \<or> js_gt (fp_sharpeRatio (ps ! k)) (fp_sharpeRatio q)"
    if "q \<in> set ps" for q
  proof -
    from that obtain j where j: "j < length ps" "q = ps ! j" by (auto simp: in_set_conv_nth)
    from js_gt_total [OF nn [OF j(1)] nn [OF k]] mx j(1)
    show ?thesis unfolding j(2) by blast
  qed
  have first: "js_gt (fp_sharpeRatio (ps ! k)) (fp_sharpeRatio (ps ! j))" if "j < k" for j
  proof -
    have "j < length ps" using that k by simp
    from nn [OF this] early that show ?thesis by blast
  qed
  from k r top first
  show "\<exists>k < length ps. findMaxSharpeRatio ps = Some (ps ! k) \<and>
         (\<forall>q \<in> set ps. fp_sharpeRatio q = fp_sharpeRatio (ps ! k) \<or>
                          js_gt (fp_sharpeRatio (ps ! k)) (fp_sharpeRatio q)) \<and>
         (\<forall>j < k. js_gt (fp_sharpeRatio (ps ! k)) (fp_sharpeRatio (ps ! j)))"
    by blast
qed

theorem findMaxSharpeRatio_spec_witness:
  "[\<lparr>fp_risk = Fin 3, fp_return = Fin 3, fp_sharpeRatio = Fin 1, fp_weights = []\<rparr>,
    \<lparr>fp_risk = Fin 4, fp_return = Fin 8, fp_sharpeRatio = Fin 2, fp_weights = []\<rparr>,
    \<lparr>fp_risk = Fin 5, fp_return = Fin 10, fp_sharpeRatio = Fin 2, fp_weights = []\<rparr>] \<noteq> [] \<and>
   findMaxSharpeRatio
     [\<lparr>fp_risk = Fin 3, fp_return = Fin 3, fp_sharpeRatio = Fin 1, fp_weights = []\<rparr>,
      \<lparr>fp_risk = Fin 4, fp_return = Fin 8, fp_sharpeRatio = Fin 2, fp_weights = []\<rparr>,
      \<lparr>fp_risk = Fin 5, fp_return = Fin 10, fp_sharpeRatio = Fin 2, fp_weights = []\<rparr>]
     = Some \<lparr>fp_risk = Fin 4, fp_return = Fin 8, fp_sharpeRatio = Fin 2, fp_weights = []\<rparr> \<and>
   generateEfficientFrontier [] (\<lambda>n. 0) = []"
proof -
  let ?ps = "[\<lparr>fp_risk = Fin 3, fp_return = Fin 3, fp_sharpeRatio = Fin 1, fp_weights = []\<rparr>,
    \<lparr>fp_risk = Fin 4, fp_return = Fin 8, fp_sharpeRatio = Fin 2, fp_weights = []\<rparr>,
    \<lparr>fp_risk = Fin 5, fp_return = Fin 10, fp_sharpeRatio = Fin 2, fp_weights = []\<rparr>]"
  have ne: "?ps \<noteq> []" by simp
  have nn: "\<forall>q \<in> set ?ps. fp_sharpeRatio q \<noteq> NaN" by simp
  from findMaxSharpeRatio_spec [of "\<lambda>n. 0" ?ps] ne nn
  obtain k where k: "k < length ?ps" "findMaxSharpeRatio ?ps = Some (?ps ! k)"
    and top: "\<forall>q \<in> set ?ps. fp_sharpeRatio q = fp_sharpeRatio (?ps ! k) \<or>
                js_gt (fp_sharpeRatio (?ps ! k)) (fp_sharpeRatio q)"
    and first: "\<forall>j < k. js_gt (fp_sharpeRatio (?ps ! k)) (fp_sharpeRatio (?ps ! j))"
    and g: "generateEfficientFrontier [] (\<lambda>n. 0) = []"
    by blast
  have "k \<noteq> 0"
  proof
    assume "k = 0"
    with top have "fp_sharpeRatio (?ps ! 1) = fp_sharpeRatio (?ps ! 0) \<or>
        js_gt (fp_sharpeRatio (?ps ! 0)) (fp_sharpeRatio (?ps ! 1))" by simp
    then show False by simp
  qed
  moreover have "k \<noteq> 2"
  proof
    assume k2: "k = 2"
    have "(1::nat) < 2" by simp
    with first k2 have "js_gt (fp_sharpeRatio (?ps ! 2)) (fp_sharpeRatio (?ps ! 1))" by blast
    then show False by simp
  qed
  moreover from k(1) have "k = 0 \<or> k = 1 \<or> k = 2" by auto
  ultimately have "k = 1" by blast
  with k(2) ne g show ?thesis by simp
qed

text \<open>
  The claim as stated fails where a \<open>sharpeRatio\<close> is \<open>NaN\<close>: for the ratios
  \<open>NaN\<close>, \<open>1\<close>, \<open>2\<close> the first point is returned, since no comparison with \<open>NaN\<close>
  is true, although the third point has the maximal ratio.
\<close>

theorem findMaxSharpeRatio_counterexample:
  "findMaxSharpeRatio
     [\<lparr>fp_risk = NaN, fp_return = NaN, fp_sharpeRatio = NaN, fp_weights = [NaN]\<rparr>,
      \<lparr>fp_risk = Fin 3, fp_return = Fin 3, fp_sharpeRatio = Fin 1, fp_weights = [Fin 1]\<rparr>,
      \<lparr>fp_risk = Fin 4, fp_return = Fin 8, fp_sharpeRatio = Fin 2, fp_weights = [Fin 1]\<rparr>]
     = Some \<lparr>fp_risk = NaN, fp_return = NaN, fp_sharpeRatio = NaN, fp_weights = [NaN]\<rparr> \<and>
   js_gt (Fin 2) (Fin 1) \<and> \<not> js_gt NaN (Fin 2) \<and> NaN \<noteq> Fin 2"
  by (simp add: findMaxSharpeRatio_def)

section \<open>Monte Carlo trial against portfolio metrics\<close>

lemma weighted_mean_swap:
  fixes A :: "nat \<Rightarrow> nat \<Rightarrow> real" and w :: "nat \<Rightarrow> real"
  shows "(\<Sum>j<K. w j * ((\<Sum>k<N. A k j) / real N)) = (\<Sum>k<N. \<Sum>j<K. A k j * w j) / real N"
proof -
  have "(\<Sum>j<K. w j * ((\<Sum>k<N. A k j) / real N)) = (\<Sum>j<K. \<Sum>k<N. A k j * w j) / real N"
    by (simp add: sum_divide_distrib sum_distrib_left mult.commute)
  also have "(\<Sum>j<K. \<Sum>k<N. A k j * w j) = (\<Sum>k<N. \<Sum>j<K. A k j * w j)"
    by (rule sum.swap)
  finally show ?thesis .
qed

lemma quadratic_form_variance:
  fixes A :: "nat \<Rightarrow> nat \<Rightarrow> real" and w :: "nat \<Rightarrow> real" and N K :: nat and d :: real
  defines "mu \<equiv> \<lambda>j. (\<Sum>k<N. A k j) / real N"
  defines "P \<equiv> \<lambda>k. (\<Sum>j<K. A k j * w j)"
  defines "mean \<equiv> (\<Sum>k<N. P k) / real N"
  shows "(\<Sum>r<K. \<Sum>c<K. w r * w c * ((\<Sum>k<N. (A k r - mu r) * (A k c - mu c)) / d))
           = (\<Sum>k<N. (P k - mean)\<^sup>2) / d"
proof -
  have m: "(\<Sum>j<K. w j * mu j) = mean"
    unfolding mu_def mean_def P_def by (rule weighted_mean_swap)
  have dev: "(\<Sum>r<K. w r * (A k r - mu r)) = P k - mean" for k
  proof -
    have "(\<Sum>r<K. w r * (A k r - mu r)) = (\<Sum>r<K. A k r * w r) - (\<Sum>r<K. w r * mu r)"
      by (simp add: right_diff_distrib sum_subtractf mult.commute)
    then show ?thesis using m by (simp add: P_def)
  qed
  have "(\<Sum>r<K. \<Sum>c<K. w r * w c * ((\<Sum>k<N. (A k r - mu r) * (A k c - mu c)) / d))
      = (\<Sum>r<K. \<Sum>c<K. \<Sum>k<N. (w r * (A k r - mu r)) * (w c * (A k c - mu c))) / d"
    by (simp add: sum_divide_distrib sum_distrib_left mult_ac)
  also have "(\<Sum>r<K. \<Sum>c<K. \<Sum>k<N. (w r * (A k r - mu r)) * (w c * (A k c - mu c)))
      = (\<Sum>r<K. \<Sum>k<N. \<Sum>c<K. (w r * (A k r - mu r)) * (w c * (A k c - mu c)))"
    by (intro sum.cong refl sum.swap)
  also have "\<dots> = (\<Sum>k<N. \<Sum>r<K. \<Sum>c<K. (w r * (A k r - mu r)) * (w c * (A k c - mu c)))"
    by (rule sum.swap)
  also have "\<dots> = (\<Sum>k<N. (\<Sum>r<K. w r * (A k r - mu r)) * (\<Sum>c<K. w c * (A k c - mu c)))"
    by (simp add: sum_product)
  also have "\<dots> = (\<Sum>k<N. (P k - mean)\<^sup>2)"
    by (simp add: dev power2_eq_square)
  finally show ?thesis .
qed

lemma portfolio_day_Fin:
  assumes "length row \<le> length w"
  shows "foldl (\<lambda>sum (ret, i). js_add sum (js_mul ret (nth_num (map Fin w) i))) (Fin a)
           (zip (map Fin row) [0..<length row]) = Fin (a + (\<Sum>j<length row. row ! j * w ! j))"
  using assms
proof (induction row rule: rev_induct)
  case Nil
  then show ?case by simp
next
  case (snoc x xs)
  then have l: "length xs < length w" by simp
  have z: "zip (map Fin (xs @ [x])) [0..<length (xs @ [x])] = zip (map Fin xs) [0..<length xs] @ [(Fin x, length xs)]"
    by simp
  have s: "(\<Sum>j<length xs. (xs @ [x]) ! j * w ! j) = (\<Sum>j<length xs. xs ! j * w ! j)"
    by (intro sum.cong refl) (simp add: nth_append)
  show ?case
    unfolding z foldl_append using snoc.IH l s
    by (simp add: nth_num_def add.assoc)
qed

lemma portfolioReturns_Fin:
  assumes rows: "\<forall>row \<in> set M. length row = K" and w: "length w = K"
  shows "portfolioReturns (map Fin w) (map (map Fin) M) = map Fin (map (\<lambda>row. \<Sum>j<K. row ! j * w ! j) M)"
proof -
  have "foldl (\<lambda>sum (ret, i). js_add sum (js_mul ret (nth_num (map Fin w) i))) (Fin 0)
           (zip (map Fin row) [0..<length (map Fin row)]) = Fin (\<Sum>j<K. row ! j * w ! j)"
    if "row \<in> set M" for row
    using portfolio_day_Fin [of row w 0] rows w that by simp
  then show ?thesis by (simp add: portfolioReturns_def)
qed

lemma foldl_sq_Fin:
  "foldl (\<lambda>sum ret. js_add sum (Math_pow2 (js_sub ret (Fin m)))) (Fin a) (map Fin xs)
     = Fin (a + (\<Sum>x\<leftarrow>xs. (x - m)\<^sup>2))"
  by (induction xs arbitrary: a) (simp_all add: js_sub_def add.assoc)

lemma calculatePortfolioMetrics_Fin:
  assumes "pr \<noteq> []" and "portfolioReturns weights returns = map Fin pr"
  defines "mean \<equiv> sum_list pr / real (length pr)"
  shows "m_return (calculatePortfolioMetrics weights returns) = Fin (mean * 252)"
    and "m_volatility (calculatePortfolioMetrics weights returns)
           = Fin (sqrt ((\<Sum>x\<leftarrow>pr. (x - mean)\<^sup>2) / real (length pr) * 252))"
proof -
  have n: "real (length pr) \<noteq> 0" using assms(1) by simp
  have nonneg: "0 \<le> (\<Sum>x\<leftarrow>pr. (x - mean)\<^sup>2) / real (length pr) * 252"
    by (intro mult_nonneg_nonneg divide_nonneg_nonneg sum_list_nonneg) auto
  show "m_return (calculatePortfolioMetrics weights returns) = Fin (mean * 252)"
    using n by (simp add: calculatePortfolioMetrics_def Let_def assms(2) foldl_js_add_Fin mean_def)
  show "m_volatility (calculatePortfolioMetrics weights returns)
           = Fin (sqrt ((\<Sum>x\<leftarrow>pr. (x - mean)\<^sup>2) / real (length pr) * 252))"
    using n nonneg
    by (simp add: calculatePortfolioMetrics_def Let_def assms(2) foldl_js_add_Fin foldl_sq_Fin mean_def not_less)
qed

lemma mc_return_Fin:
  assumes "K \<le> length w" "K \<le> length mu"
  shows "fold (\<lambda>j acc. js_add acc (js_mul (js_mul (nth_num (map Fin w) j) (nth_num (map Fin mu) j)) (Fin 252)))
           [0..<K] (Fin 0) = Fin (\<Sum>j<K. w ! j * mu ! j * 252)"
proof -
  have "fold (\<lambda>j acc. js_add acc (js_mul (js_mul (nth_num (map Fin w) j) (nth_num (map Fin mu) j)) (Fin 252)))
           [0..<K] (Fin 0) = fold (\<lambda>j acc. js_add acc (Fin (w ! j * mu ! j * 252))) [0..<K] (Fin 0)"
    using assms by (intro fold_cong_set) (simp add: nth_num_def)
  then show ?thesis by (simp add: fold_js_add_Fin)
qed

lemma mc_variance_Fin:
  assumes w: "K \<le> length w"
  shows "mc_variance (map Fin w) (map (\<lambda>r. map (\<lambda>c. Fin (C r c)) [0..<K]) [0..<K]) K
           = Inr (Fin (\<Sum>r<K. \<Sum>c<K. w ! r * w ! c * C r c))"
proof -
  let ?cov = "map (\<lambda>r. map (\<lambda>c. Fin (C r c)) [0..<K]) [0..<K]"
  let ?step = "\<lambda>r c st. case st of Inl e \<Rightarrow> Inl e
      | Inr portfolioVariance \<Rightarrow>
          (case cov_entry ?cov r c of Inl e \<Rightarrow> Inl e
           | Inr cv \<Rightarrow> Inr (js_add portfolioVariance
                             (js_mul (js_mul (nth_num (map Fin w) r) (nth_num (map Fin w) c)) cv)))"
  have inner: "fold (?step r) [0..<n] (Inr (Fin a)) = Inr (Fin (a + (\<Sum>c<n. w ! r * w ! c * C r c)))"
    if "r < K" "n \<le> K" for r n a
    using that(2)
  proof (induction n)
    case 0
    then show ?case by simp
  next
    case (Suc n)
    then have n: "n < K" by simp
    have "cov_entry ?cov r n = Inr (Fin (C r n))"
      using that(1) n by (simp add: cov_entry_def nth_num_def)
    then show ?case using Suc n that(1) w by (simp add: nth_num_def add.assoc)
  qed
  have outer: "fold (\<lambda>r st. fold (?step r) [0..<K] st) [0..<m] (Inr (Fin 0))
                 = Inr (Fin (\<Sum>r<m. \<Sum>c<K. w ! r * w ! c * C r c))" if "m \<le> K" for m
    using that
  proof (induction m)
    case 0
    then show ?case by simp
  next
    case (Suc m)
    then have m: "m < K" by simp
    show ?case using Suc inner [OF m order_refl] by simp
  qed
  show ?thesis unfolding mc_variance_def using outer [OF order_refl] .
qed

lemma transposedReturns_Fin:
  assumes fin: "map dailyReturns selectedStocks = map (map Fin) cols"
    and len: "\<forall>c \<in> set cols. length c = N" and K: "cols \<noteq> []"
  shows "transposedReturns selectedStocks = map (map Fin) (map (\<lambda>k. map (\<lambda>c. c ! k) cols) [0..<N])"
proof -
  have h: "length (hd (map (map Fin) cols)) = N" using K len by (cases cols) simp_all
  have "transposedReturns selectedStocks
      = map (\<lambda>k. map (\<lambda>row. nth_num row k) (map (map Fin) cols)) [0..<N]"
    unfolding transposedReturns_def Let_def fin
    using map_zip_upt [where f = "\<lambda>u colIndex. map (\<lambda>row. nth_num row colIndex) (map (map Fin) cols)"
        and xs = "hd (map (map Fin) cols)"]
    by (simp only: h)
  also have "\<dots> = map (map Fin) (map (\<lambda>k. map (\<lambda>c. c ! k) cols) [0..<N])"
    using len by (simp add: nth_num_def)
  finally show ?thesis .
qed

lemma meanDailyReturns_Fin:
  assumes fin: "map dailyReturns selectedStocks = map (map Fin) cols"
    and len: "\<forall>c \<in> set cols. length c = N" and N: "0 < N"
  shows "meanDailyReturns selectedStocks = map Fin (map (\<lambda>c. (\<Sum>k<N. c ! k) / real N) cols)"
proof -
  have "meanDailyReturns selectedStocks
      = map (\<lambda>d. js_div (foldl js_add (Fin 0) d) (Fin (real (length d)))) (map dailyReturns selectedStocks)"
    by (simp add: meanDailyReturns_def comp_def)
  also have "\<dots> = map (\<lambda>c. Fin (sum_list c / real N)) cols"
    unfolding fin using len N by (simp add: foldl_js_add_Fin)
  also have "\<dots> = map (\<lambda>c. Fin ((\<Sum>k<N. c ! k) / real N)) cols"
    using len by (intro map_cong refl) (simp add: sum_list_sum_nth atLeast0LessThan)
  finally show ?thesis by (simp add: comp_def)
qed

text \<open>
  Claim C10. Let the selected stocks carry finite daily returns, \<open>N \<ge> 2\<close> days each, and
  let \<open>w\<close> hold one finite weight per stock. On the day-by-asset matrix built from these
  stocks, the Monte Carlo trial's expected annual return equals the annualized return of
  \<open>calculatePortfolioMetrics\<close> exactly, and its volatility, taken from the
  \<open>N - 1\<close> sample covariance, is \<open>sqrt(N / (N - 1))\<close> times the volatility of
  \<open>calculatePortfolioMetrics\<close>, which uses the population variance; the two differ
  whenever the latter is not \<open>0\<close>.
\<close>

theorem monte_carlo_vs_metrics:
  assumes fin: "map dailyReturns selectedStocks = map (map Fin) cols"
    and len: "\<forall>c \<in> set cols. length c = N" and N: "2 \<le> N" and K: "cols \<noteq> []"
    and w: "length w = length cols"
  shows "\<exists>cov s v. calculateCovarianceMatrix (transposedReturns selectedStocks) = Inr cov \<and>
          mc_trial (map Fin w) cov (meanDailyReturns selectedStocks) (length selectedStocks) = Inr s \<and>
          mc_return s = m_return (calculatePortfolioMetrics (map Fin w) (transposedReturns selectedStocks)) \<and>
          m_volatility (calculatePortfolioMetrics (map Fin w) (transposedReturns selectedStocks)) = Fin v \<and>
          mc_volatility s = Fin (sqrt (real N / (real N - 1)) * v) \<and>
          (v \<noteq> 0 \<longrightarrow> mc_volatility s \<noteq> Fin v)"
proof -
  define Kn where "Kn = length cols"
  define M where "M = map (\<lambda>k. map (\<lambda>c. c ! k) cols) [0..<N]"
  define A where "A = (\<lambda>k j. M ! k ! j)"
  define mu where "mu = (\<lambda>j. (\<Sum>k<N. A k j) / real N)"
  define P where "P = (\<lambda>k. \<Sum>j<Kn. A k j * w ! j)"
  define mean where "mean = (\<Sum>k<N. P k) / real N"
  define var where "var = (\<Sum>k<N. (P k - mean)\<^sup>2)"
  define C where "C = (\<lambda>r c. (\<Sum>k<N. (A k r - mu r) * (A k c - mu c)) / (real N - 1))"
  have N0: "0 < N" and N1: "real N - 1 \<noteq> 0" and N1p: "0 < real N - 1" using N by simp_all
  have K0: "0 < Kn" using K by (simp add: Kn_def)
  have lenS: "length selectedStocks = Kn"
    using arg_cong [OF fin, of length] by (simp add: Kn_def)
  have lenM: "length M = N" and Mne: "M \<noteq> []" using N0 by (simp_all add: M_def)
  have rows: "\<forall>row \<in> set M. length row = Kn" by (auto simp: M_def Kn_def)
  have Akj: "A k j = cols ! j ! k" if "k < N" "j < Kn" for k j
    using that by (simp add: A_def M_def Kn_def)
  have T: "transposedReturns selectedStocks = map (map Fin) M"
    unfolding M_def by (rule transposedReturns_Fin [OF fin len K])
  \<comment> \<open>portfolio metrics\<close>
  let ?pr = "map (\<lambda>row. \<Sum>j<Kn. row ! j * w ! j) M"
  have PR: "portfolioReturns (map Fin w) (transposedReturns selectedStocks) = map Fin ?pr"
    unfolding T using rows w by (intro portfolioReturns_Fin) (simp_all add: Kn_def)
  have prne: "?pr \<noteq> []" and lpr: "length ?pr = N" using Mne lenM by simp_all
  have prk: "?pr ! k = P k" if "k < N" for k using that lenM by (simp add: P_def A_def)
  have sum_pr: "sum_list ?pr = (\<Sum>k<N. P k)"
    using prk lpr by (simp only: sum_list_sum_nth atLeast0LessThan) (simp add: lenM P_def A_def)
  have mean_pr: "sum_list ?pr / real (length ?pr) = mean"
    unfolding mean_def sum_pr lpr ..
  have "(\<Sum>x\<leftarrow>?pr. (x - mean)\<^sup>2) = sum_list (map (\<lambda>k. (?pr ! k - mean)\<^sup>2) [0..<length ?pr])"
    by (subst (1) map_nth [symmetric, of ?pr]) (simp only: map_map comp_def)
  also have "\<dots> = (\<Sum>k<N. (?pr ! k - mean)\<^sup>2)"
    unfolding lpr by (simp only: interv_sum_list_conv_sum_set_nat set_upt atLeast0LessThan)
  also have "\<dots> = var" unfolding var_def by (intro sum.cong refl) (simp add: prk)
  finally have var_pr: "(\<Sum>x\<leftarrow>?pr. (x - mean)\<^sup>2) = var" .
  have var0: "0 \<le> var" unfolding var_def by (intro sum_nonneg) simp
  have mret: "m_return (calculatePortfolioMetrics (map Fin w) (transposedReturns selectedStocks)) = Fin (mean * 252)"
    using calculatePortfolioMetrics_Fin(1) [OF prne PR] by (simp only: mean_pr)
  have mvol: "m_volatility (calculatePortfolioMetrics (map Fin w) (transposedReturns selectedStocks))
                = Fin (sqrt (var / real N * 252))"
    using calculatePortfolioMetrics_Fin(2) [OF prne PR] mean_pr
    by (simp only: lpr var_pr)
  \<comment> \<open>covariance matrix and Monte Carlo trial\<close>
  let ?cov = "map (\<lambda>r. map (\<lambda>c. Fin (C r c)) [0..<Kn]) [0..<Kn]"
  have cov: "calculateCovarianceMatrix (transposedReturns selectedStocks) = Inr ?cov"
    unfolding T calculateCovarianceMatrix_Fin [OF rows Mne K0] lenM C_def mu_def A_def
    using N1 by simp
  let ?mu = "map (\<lambda>c. (\<Sum>k<N. c ! k) / real N) cols"
  have MU: "meanDailyReturns selectedStocks = map Fin ?mu"
    by (rule meanDailyReturns_Fin [OF fin len N0])
  have muj: "?mu ! j = mu j" if "j < Kn" for j
  proof -
    have "(\<Sum>k<N. cols ! j ! k) = (\<Sum>k<N. A k j)"
      using that by (intro sum.cong refl) (simp add: Akj)
    then show ?thesis using that by (simp add: mu_def Kn_def)
  qed
  have r1: "fold (\<lambda>j acc. js_add acc (js_mul (js_mul (nth_num (map Fin w) j) (nth_num (map Fin ?mu) j)) (Fin 252)))
              [0..<Kn] (Fin 0) = Fin (\<Sum>j<Kn. w ! j * ?mu ! j * 252)"
    using w by (intro mc_return_Fin) (simp_all add: Kn_def)
  have "(\<Sum>j<Kn. w ! j * ?mu ! j * 252) = (\<Sum>j<Kn. w ! j * mu j) * 252"
    unfolding sum_distrib_right by (intro sum.cong refl) (simp add: muj)
  also have "(\<Sum>j<Kn. w ! j * mu j) = mean"
    unfolding mu_def mean_def P_def by (rule weighted_mean_swap)
  finally have r2: "(\<Sum>j<Kn. w ! j * ?mu ! j * 252) = mean * 252" .
  have v1: "mc_variance (map Fin w) ?cov Kn = Inr (Fin (\<Sum>r<Kn. \<Sum>c<Kn. w ! r * w ! c * C r c))"
    using w by (intro mc_variance_Fin) (simp add: Kn_def)
  have v2: "(\<Sum>r<Kn. \<Sum>c<Kn. w ! r * w ! c * C r c) = var / (real N - 1)"
    unfolding C_def var_def mean_def P_def mu_def
    by (rule quadratic_form_variance)
  have v0: "0 \<le> var / (real N - 1) * 252" using var0 N1p by simp
  let ?s = "\<lparr>mc_return = Fin (mean * 252), mc_volatility = Fin (sqrt (var / (real N - 1) * 252))\<rparr>"
  have trial: "mc_trial (map Fin w) ?cov (meanDailyReturns selectedStocks) (length selectedStocks) = Inr ?s"
    unfolding mc_trial_def Let_def lenS MU r1 r2 v1 v2 using v0 by (simp add: not_less)
  have "v / d * c = (n / d) * (v / n * c)" if "n \<noteq> 0" for v d c n :: real
    using that by (cases "d = 0") (simp_all add: field_simps)
  from this [of "real N" var "real N - 1" 252] N0
  have "var / (real N - 1) * 252 = (real N / (real N - 1)) * (var / real N * 252)" by simp
  then have sq: "sqrt (var / (real N - 1) * 252) = sqrt (real N / (real N - 1)) * sqrt (var / real N * 252)"
    by (simp only: real_sqrt_mult)
  have ratio: "sqrt (real N / (real N - 1)) \<noteq> 1"
  proof
    assume "sqrt (real N / (real N - 1)) = 1"
    then have "real N / (real N - 1) = 1" by simp
    then show False using N1 by simp
  qed
  show ?thesis
  proof (intro exI conjI impI)
    show "calculateCovarianceMatrix (transposedReturns selectedStocks) = Inr ?cov" by (rule cov)
    show "mc_trial (map Fin w) ?cov (meanDailyReturns selectedStocks) (length selectedStocks) = Inr ?s"
      by (rule trial)
    show "mc_return ?s = m_return (calculatePortfolioMetrics (map Fin w) (transposedReturns selectedStocks))"
      by (simp add: mret)
    show "m_volatility (calculatePortfolioMetrics (map Fin w) (transposedReturns selectedStocks))
            = Fin (sqrt (var / real N * 252))" by (rule mvol)
    show "mc_volatility ?s = Fin (sqrt (real N / (real N - 1)) * sqrt (var / real N * 252))"
      by (simp only: mcSample.select_convs sq)
    assume "sqrt (var / real N * 252) \<noteq> 0"
    then have "sqrt (real N / (real N - 1)) * sqrt (var / real N * 252) \<noteq> sqrt (var / real N * 252)"
      using ratio by simp
    then show "mc_volatility ?s \<noteq> Fin (sqrt (var / real N * 252))"
      by (simp only: mcSample.select_convs sq jsnum.inject not_False_eq_True)
  qed
qed

theorem monte_carlo_vs_metrics_witness:
  "calculateCovarianceMatrix (transposedReturns [\<lparr>symbol = ''A'', dailyReturns = [Fin 1, Fin 3]\<rparr>]) = Inr [[Fin 2]] \<and>
   (\<exists>s v. mc_trial [Fin 1] [[Fin 2]] (meanDailyReturns [\<lparr>symbol = ''A'', dailyReturns = [Fin 1, Fin 3]\<rparr>]) 1 = Inr s \<and>
      mc_return s = m_return (calculatePortfolioMetrics [Fin 1] (transposedReturns [\<lparr>symbol = ''A'', dailyReturns = [Fin 1, Fin 3]\<rparr>])) \<and>
      m_volatility (calculatePortfolioMetrics [Fin 1] (transposedReturns [\<lparr>symbol = ''A'', dailyReturns = [Fin 1, Fin 3]\<rparr>])) = Fin v \<and>
      mc_volatility s = Fin (sqrt 2 * v))"
proof -
  let ?st = "[\<lparr>symbol = ''A'', dailyReturns = [Fin 1, Fin 3]\<rparr>]"
  have fin: "map dailyReturns ?st = map (map Fin) [[1, 3]]" by simp
  have len: "\<forall>c \<in> set [[1, 3 :: real]]. length c = 2" by simp
  have N: "(2::nat) \<le> 2" by simp
  have K: "[[1, 3 :: real]] \<noteq> []" by simp
  have w: "length [1 :: real] = length [[1, 3 :: real]]" by simp
  have c: "calculateCovarianceMatrix (transposedReturns ?st) = Inr [[Fin 2]]"
    by (simp add: transposedReturns_def calculateCovarianceMatrix_def meanReturns_of_def sumProduct_of_def
        nth_num_def js_sub_def upt_rec numeral_2_eq_2)
  from monte_carlo_vs_metrics [OF fin len N K w] c show ?thesis by auto
qed

end
